theory Spec2Isabelle
  imports
    Complex_Main
    "HOL-Library.Monad_Syntax"
    "HOL-Library.Char_ord"
    "HOL-Library.List_Lexorder"
begin

section \<open>JavaScript values and strings\<close>

text \<open>
  The functions of \<^verbatim>\<open>functions/index.js\<close> receive untyped request data. A raw value is
  one of the JSON shapes plus \<^verbatim>\<open>undefined\<close> (an absent field). Numbers are finite
  rationals: request data arrives as JSON, which carries neither NaN nor the infinities.
  Strings are byte strings, read as UTF-8.
\<close>

datatype jv =
    JUndefined
  | JNull
  | JBool bool
  | JNum rat
  | JStr string
  | JArr "jv list"
  | JObj "(string \<times> jv) list"

type_synonym raw = "(string \<times> jv) list"

text \<open>Property access \<^verbatim>\<open>raw.k\<close>: the value stored under the key, else \<^verbatim>\<open>undefined\<close>.\<close>

definition fld :: "raw \<Rightarrow> string \<Rightarrow> jv" where
  "fld r k = (case map_of r k of None \<Rightarrow> JUndefined | Some v \<Rightarrow> v)"

text \<open>JavaScript truthiness, as used by \<^verbatim>\<open>||\<close>, \<^verbatim>\<open>!\<close> and \<^verbatim>\<open>? :\<close>.\<close>

fun truthy :: "jv \<Rightarrow> bool" where
  "truthy JUndefined = False"
| "truthy JNull = False"
| "truthy (JBool b) = b"
| "truthy (JNum q) = (q \<noteq> 0)"
| "truthy (JStr s) = (s \<noteq> [])"
| "truthy (JArr xs) = True"
| "truthy (JObj fs) = True"

text \<open>
  A string is the UTF-8 encoding of a well-formed JavaScript string, one \<open>char\<close> per
  byte. The class \<^verbatim>\<open>\s\<close> of a regular expression, which is also what
  \<^verbatim>\<open>String.prototype.trim\<close> removes, has the characters U+0009 to U+000D, U+0020,
  U+00A0, U+1680, U+2000 to U+200A, U+2028, U+2029, U+202F, U+205F, U+3000 and U+FEFF: of
  one, two and three bytes.
\<close>

definition ws1 :: "nat \<Rightarrow> bool" where
  "ws1 a = (a = 32 \<or> (9 \<le> a \<and> a \<le> 13))"

definition ws2 :: "nat \<Rightarrow> nat \<Rightarrow> bool" where
  "ws2 a b = (a = 194 \<and> b = 160)"

definition ws3 :: "nat \<Rightarrow> nat \<Rightarrow> nat \<Rightarrow> bool" where
  "ws3 a b c =
     ((a = 225 \<and> b = 154 \<and> c = 128)
      \<or> (a = 226 \<and> b = 128 \<and> ((128 \<le> c \<and> c \<le> 138) \<or> c = 168 \<or> c = 169 \<or> c = 175))
      \<or> (a = 226 \<and> b = 129 \<and> c = 159)
      \<or> (a = 227 \<and> b = 128 \<and> c = 128)
      \<or> (a = 239 \<and> b = 187 \<and> c = 191))"

text \<open>The number of bytes of the whitespace character a string starts with, 0 for none.\<close>

fun ws_prefix :: "string \<Rightarrow> nat" where
  "ws_prefix (a # b # c # s) =
     (if ws1 (of_char a) then 1
      else if ws2 (of_char a) (of_char b) then 2
      else if ws3 (of_char a) (of_char b) (of_char c) then 3 else 0)"
| "ws_prefix [a, b] =
     (if ws1 (of_char a) then 1 else if ws2 (of_char a) (of_char b) then 2 else 0)"
| "ws_prefix [a] = (if ws1 (of_char a) then 1 else 0)"
| "ws_prefix [] = 0"

text \<open>The same read from the end, on the reversed string.\<close>

fun ws_suffix_rev :: "string \<Rightarrow> nat" where
  "ws_suffix_rev (c # b # a # s) =
     (if ws1 (of_char c) then 1
      else if ws2 (of_char b) (of_char c) then 2
      else if ws3 (of_char a) (of_char b) (of_char c) then 3 else 0)"
| "ws_suffix_rev [c, b] =
     (if ws1 (of_char c) then 1 else if ws2 (of_char b) (of_char c) then 2 else 0)"
| "ws_suffix_rev [c] = (if ws1 (of_char c) then 1 else 0)"
| "ws_suffix_rev [] = 0"

text \<open>\<^verbatim>\<open>s.replace(/\s+/g,'')\<close>: every whitespace character is removed.\<close>

function strip_ws :: "string \<Rightarrow> string" where
  "strip_ws [] = []"
| "strip_ws (a # s) =
     (if ws_prefix (a # s) = 0 then a # strip_ws s
      else strip_ws (drop (ws_prefix (a # s)) (a # s)))"
  by pat_completeness auto
termination
  by (relation "measure length") auto

declare strip_ws.simps(2) [simp del]

text \<open>\<^verbatim>\<open>s.trim()\<close>: the whitespace at both ends is removed.\<close>

function drop_ws :: "(string \<Rightarrow> nat) \<Rightarrow> string \<Rightarrow> string" where
  "drop_ws f s = (if f s = 0 \<or> s = [] then s else drop_ws f (drop (f s) s))"
  by pat_completeness auto
termination
  by (relation "measure (\<lambda>(f, s). length s)") auto

declare drop_ws.simps [simp del]

definition trim :: "string \<Rightarrow> string" where
  "trim s = rev (drop_ws ws_suffix_rev (rev (drop_ws ws_prefix s)))"

text \<open>
  \<^verbatim>\<open>s.toLowerCase()\<close>. On a string of ASCII characters it maps \<open>A\<close> to \<open>Z\<close> to
  \<open>a\<close> to \<open>z\<close>. On any other string it is the case mapping of the engine, which
  depends on the Unicode tables and on the context of a letter; it is taken as the
  parameter \<open>L\<close>.
\<close>

definition is_ascii :: "char \<Rightarrow> bool" where
  "is_ascii c = ((of_char c :: nat) < 128)"

definition toLowerChar :: "char \<Rightarrow> char" where
  "toLowerChar c =
     (let n = (of_char c :: nat) in if 65 \<le> n \<and> n \<le> 90 then char_of (n + 32) else c)"

definition toLowerCase :: "(string \<Rightarrow> string) \<Rightarrow> string \<Rightarrow> string" where
  "toLowerCase L s = (if list_all is_ascii s then map toLowerChar s else L s)"

text \<open>
  \<^verbatim>\<open>s.length\<close>, in UTF-16 code units: one for a character of up to three bytes, two
  for one of four bytes.
\<close>

definition code_units :: "string \<Rightarrow> nat" where
  "code_units s =
     sum_list (map (\<lambda>c. let n = (of_char c :: nat) in
                          if n < 128 then 1 else if n < 192 then 0 else if n < 240 then 1 else 2) s)"

section \<open>Identity normalizer\<close>

text \<open>
  \<^verbatim>\<open>const normalizeId = (domain, product) =>
  `${domain.replace(/\s+/g,'').toLowerCase()}_${product}`;\<close>

  The whitespace is removed, the rest is lower-cased and the product is appended after an
  underscore. The only caller passes the validated \<^verbatim>\<open>parsed.domain\<close> and
  \<^verbatim>\<open>parsed.product\<close>, both strings.
\<close>

definition normalizeId :: "(string \<Rightarrow> string) \<Rightarrow> string \<Rightarrow> string \<Rightarrow> string" where
  "normalizeId L domain product = toLowerCase L (strip_ws domain) @ ''_'' @ product"

text \<open>
  Two strings differ only in whitespace and, as far as \<open>same\<close> allows, in their other
  bytes: read both from the left, skip a whitespace character on either side, and compare
  the remaining bytes with \<open>same\<close>.
\<close>

function same_modulo_space :: "(char \<Rightarrow> char \<Rightarrow> bool) \<Rightarrow> string \<Rightarrow> string \<Rightarrow> bool" where
  "same_modulo_space same xs ys =
     (if ws_prefix xs \<noteq> 0 \<and> xs \<noteq> [] then same_modulo_space same (drop (ws_prefix xs) xs) ys
      else if ws_prefix ys \<noteq> 0 \<and> ys \<noteq> [] then same_modulo_space same xs (drop (ws_prefix ys) ys)
      else (case xs of
              [] \<Rightarrow> ys = []
            | a # xs' \<Rightarrow>
                (case ys of
                   [] \<Rightarrow> False
                 | b # ys' \<Rightarrow> same a b \<and> same_modulo_space same xs' ys')))"
  by pat_completeness auto
termination
  by (relation "measure (\<lambda>(same, xs, ys). length xs + length ys)") auto

declare same_modulo_space.simps [simp del]

text \<open>Equal up to the case of the letters \<open>A\<close> to \<open>Z\<close>.\<close>

definition same_letter :: "char \<Rightarrow> char \<Rightarrow> bool" where
  "same_letter a b = (toLowerChar a = toLowerChar b)"

section \<open>Schema validator\<close>

text \<open>
  The combinators of the validation library that \<^verbatim>\<open>ProspectSchema\<close> uses. A parser
  returns \<open>None\<close> where the library records an issue for the field.
\<close>

definition z_string :: "jv \<Rightarrow> string option" where
  "z_string v = (case v of JStr s \<Rightarrow> Some s | _ \<Rightarrow> None)"

definition z_string_min :: "nat \<Rightarrow> jv \<Rightarrow> string option" where
  "z_string_min n v =
     (case v of JStr s \<Rightarrow> if n \<le> code_units s then Some s else None | _ \<Rightarrow> None)"

definition z_string_trim_lower :: "(string \<Rightarrow> string) \<Rightarrow> jv \<Rightarrow> string option" where
  "z_string_trim_lower L v =
     (case v of JStr s \<Rightarrow> Some (toLowerCase L (trim s)) | _ \<Rightarrow> None)"

definition z_enum :: "string list \<Rightarrow> jv \<Rightarrow> string option" where
  "z_enum opts v = (case v of JStr s \<Rightarrow> if s \<in> set opts then Some s else None | _ \<Rightarrow> None)"

definition z_int_range :: "int \<Rightarrow> int \<Rightarrow> jv \<Rightarrow> int option" where
  "z_int_range lo hi v =
     (case v of
        JNum q \<Rightarrow> if of_int \<lfloor>q\<rfloor> = q \<and> lo \<le> \<lfloor>q\<rfloor> \<and> \<lfloor>q\<rfloor> \<le> hi then Some \<lfloor>q\<rfloor> else None
      | _ \<Rightarrow> None)"

definition z_array :: "(jv \<Rightarrow> 'a option) \<Rightarrow> jv \<Rightarrow> 'a list option" where
  "z_array p v = (case v of JArr xs \<Rightarrow> those (map p xs) | _ \<Rightarrow> None)"

text \<open>\<^verbatim>\<open>.default(d)\<close>: an absent field takes the default, anything else is parsed.\<close>

definition z_default :: "'a \<Rightarrow> (jv \<Rightarrow> 'a option) \<Rightarrow> jv \<Rightarrow> 'a option" where
  "z_default d p v = (case v of JUndefined \<Rightarrow> Some d | _ \<Rightarrow> p v)"

text \<open>\<^verbatim>\<open>.optional()\<close>: an absent field stays absent, anything else is parsed.\<close>

definition z_optional :: "(jv \<Rightarrow> 'a option) \<Rightarrow> jv \<Rightarrow> 'a option option" where
  "z_optional p v = (case v of JUndefined \<Rightarrow> Some None | _ \<Rightarrow> map_option Some (p v))"

text \<open>\<^verbatim>\<open>z.string().or(z.number())\<close>, the argument of a later \<^verbatim>\<open>new Date(...)\<close>.\<close>

datatype date_input = DStr string | DNum rat

definition z_string_or_number :: "jv \<Rightarrow> date_input option" where
  "z_string_or_number v =
     (case v of JStr s \<Rightarrow> Some (DStr s) | JNum q \<Rightarrow> Some (DNum q) | _ \<Rightarrow> None)"

record contact =
  c_name :: string
  c_title :: "string option"
  c_email :: "string option"
  c_phone :: "string option"
  c_role :: "string option"

record signal =
  s_type :: string
  s_title :: string
  s_date :: "string option"
  s_source :: "string option"

definition z_contact :: "jv \<Rightarrow> contact option" where
  "z_contact v =
     (case v of
        JObj fs \<Rightarrow> do {
          name \<leftarrow> z_string (fld fs ''name'');
          title \<leftarrow> z_optional z_string (fld fs ''title'');
          email \<leftarrow> z_optional z_string (fld fs ''email'');
          phone \<leftarrow> z_optional z_string (fld fs ''phone'');
          role \<leftarrow> z_optional z_string (fld fs ''role'');
          Some \<lparr>c_name = name, c_title = title, c_email = email, c_phone = phone,
                 c_role = role\<rparr> }
      | _ \<Rightarrow> None)"

definition z_signal :: "jv \<Rightarrow> signal option" where
  "z_signal v =
     (case v of
        JObj fs \<Rightarrow> do {
          ty \<leftarrow> z_string (fld fs ''type'');
          title \<leftarrow> z_string (fld fs ''title'');
          date \<leftarrow> z_optional z_string (fld fs ''date'');
          source \<leftarrow> z_optional z_string (fld fs ''source'');
          Some \<lparr>s_type = ty, s_title = title, s_date = date, s_source = source\<rparr> }
      | _ \<Rightarrow> None)"

text \<open>The value \<^verbatim>\<open>ProspectSchema.parse\<close> returns: one field per key of the schema.\<close>

record parsed =
  tenantId :: string
  institutionName :: string
  domain :: string
  product :: string
  region :: string
  timezone :: string
  lms :: string
  score :: int
  stage :: string
  wedges :: "string list"
  whyNow :: string
  currentTools :: "string list"
  ownerUid :: "string option"
  ownerName :: "string option"
  status :: "string option"
  priority :: "string option"
  lastContactedAt :: "date_input option"
  nextStep :: "string option"
  nextStepDueAt :: "date_input option"
  contacts :: "contact list option"
  signals :: "signal list option"

definition products :: "string list" where
  "products = [''verity'', ''panorama'', ''lumina'']"

definition stages :: "string list" where
  "stages = [''P1'', ''nurture'', ''research'', ''hold'']"

definition statuses :: "string list" where
  "statuses = [''new'', ''working'', ''replied'', ''qualified'', ''disqualified'']"

definition priorities :: "string list" where
  "priorities = [''A'', ''B'', ''C'']"

text \<open>
  The fields of the schema, in its order. Unknown keys of the input are dropped; the
  result exists only when every field parses.
\<close>

definition ProspectSchema_fields :: "(string \<Rightarrow> string) \<Rightarrow> raw \<Rightarrow> parsed option" where
  "ProspectSchema_fields L r = do {
     v_tenantId \<leftarrow> z_string_min 1 (fld r ''tenantId'');
     v_institutionName \<leftarrow> z_string_min 2 (fld r ''institutionName'');
     v_domain \<leftarrow> z_string_trim_lower L (fld r ''domain'');
     v_product \<leftarrow> z_enum products (fld r ''product'');
     v_region \<leftarrow> z_default [] z_string (fld r ''region'');
     v_timezone \<leftarrow> z_default [] z_string (fld r ''timezone'');
     v_lms \<leftarrow> z_default [] z_string (fld r ''lms'');
     v_score \<leftarrow> z_default 0 (z_int_range 0 100) (fld r ''score'');
     v_stage \<leftarrow> z_default ''research'' (z_enum stages) (fld r ''stage'');
     v_wedges \<leftarrow> z_default [] (z_array z_string) (fld r ''wedges'');
     v_whyNow \<leftarrow> z_default [] z_string (fld r ''whyNow'');
     v_currentTools \<leftarrow> z_default [] (z_array z_string) (fld r ''currentTools'');
     v_ownerUid \<leftarrow> z_optional z_string (fld r ''ownerUid'');
     v_ownerName \<leftarrow> z_optional z_string (fld r ''ownerName'');
     v_status \<leftarrow> z_optional (z_default ''new'' (z_enum statuses)) (fld r ''status'');
     v_priority \<leftarrow> z_optional (z_default ''B'' (z_enum priorities)) (fld r ''priority'');
     v_lastContactedAt \<leftarrow> z_optional z_string_or_number (fld r ''lastContactedAt'');
     v_nextStep \<leftarrow> z_optional (z_default [] z_string) (fld r ''nextStep'');
     v_nextStepDueAt \<leftarrow> z_optional z_string_or_number (fld r ''nextStepDueAt'');
     v_contacts \<leftarrow> z_optional (z_array z_contact) (fld r ''contacts'');
     v_signals \<leftarrow> z_optional (z_array z_signal) (fld r ''signals'');
     Some \<lparr>tenantId = v_tenantId, institutionName = v_institutionName, domain = v_domain,
            product = v_product, region = v_region, timezone = v_timezone, lms = v_lms,
            score = v_score, stage = v_stage, wedges = v_wedges, whyNow = v_whyNow,
            currentTools = v_currentTools, ownerUid = v_ownerUid, ownerName = v_ownerName,
            status = v_status, priority = v_priority, lastContactedAt = v_lastContactedAt,
            nextStep = v_nextStep, nextStepDueAt = v_nextStepDueAt, contacts = v_contacts,
            signals = v_signals\<rparr> }"

text \<open>
  The paths of the fields that do not parse, in schema order: what the thrown error
  lists. (An issue inside an array is reported under the array's field.)
\<close>

definition ProspectSchema_issues :: "(string \<Rightarrow> string) \<Rightarrow> raw \<Rightarrow> string list" where
  "ProspectSchema_issues L r =
     map fst (filter (\<lambda>(k, ok). \<not> ok)
       [(''tenantId'', z_string_min 1 (fld r ''tenantId'') \<noteq> None),
        (''institutionName'', z_string_min 2 (fld r ''institutionName'') \<noteq> None),
        (''domain'', z_string_trim_lower L (fld r ''domain'') \<noteq> None),
        (''product'', z_enum products (fld r ''product'') \<noteq> None),
        (''region'', z_default [] z_string (fld r ''region'') \<noteq> None),
        (''timezone'', z_default [] z_string (fld r ''timezone'') \<noteq> None),
        (''lms'', z_default [] z_string (fld r ''lms'') \<noteq> None),
        (''score'', z_default 0 (z_int_range 0 100) (fld r ''score'') \<noteq> None),
        (''stage'', z_default ''research'' (z_enum stages) (fld r ''stage'') \<noteq> None),
        (''wedges'', z_default [] (z_array z_string) (fld r ''wedges'') \<noteq> None),
        (''whyNow'', z_default [] z_string (fld r ''whyNow'') \<noteq> None),
        (''currentTools'', z_default [] (z_array z_string) (fld r ''currentTools'') \<noteq> None),
        (''ownerUid'', z_optional z_string (fld r ''ownerUid'') \<noteq> None),
        (''ownerName'', z_optional z_string (fld r ''ownerName'') \<noteq> None),
        (''status'', z_optional (z_default ''new'' (z_enum statuses)) (fld r ''status'') \<noteq> None),
        (''priority'', z_optional (z_default ''B'' (z_enum priorities)) (fld r ''priority'') \<noteq> None),
        (''lastContactedAt'', z_optional z_string_or_number (fld r ''lastContactedAt'') \<noteq> None),
        (''nextStep'', z_optional (z_default [] z_string) (fld r ''nextStep'') \<noteq> None),
        (''nextStepDueAt'', z_optional z_string_or_number (fld r ''nextStepDueAt'') \<noteq> None),
        (''contacts'', z_optional (z_array z_contact) (fld r ''contacts'') \<noteq> None),
        (''signals'', z_optional (z_array z_signal) (fld r ''signals'') \<noteq> None)])"

datatype error =
    AuthRequired
  | NoData
  | ParseError
  | TypeError
  | ValidationError "string list"
  | GlobalAdminOnly
  | EmailAndTenantsRequired
  | UserNotFound

definition ProspectSchema_parse :: "(string \<Rightarrow> string) \<Rightarrow> raw \<Rightarrow> error + parsed" where
  "ProspectSchema_parse L r =
     (case ProspectSchema_fields L r of
        Some p \<Rightarrow> Inr p
      | None \<Rightarrow> Inl (ValidationError (ProspectSchema_issues L r)))"

section \<open>The store\<close>

text \<open>
  A stored date is a timestamp of whole seconds and nanoseconds; a JavaScript date carries
  milliseconds. \<open>fromMillis\<close> is the conversion applied when a date is written,
  \<open>toMillis\<close> the instant a stored timestamp denotes, in milliseconds.
\<close>

record timestamp =
  seconds :: int
  nanoseconds :: nat

definition fromMillis :: "int \<Rightarrow> timestamp" where
  "fromMillis ms = \<lparr>seconds = ms div 1000, nanoseconds = nat (ms mod 1000) * 1000000\<rparr>"

definition toMillis :: "timestamp \<Rightarrow> int" where
  "toMillis ts = seconds ts * 1000 + int (nanoseconds ts div 1000000)"

text \<open>
  What the program takes from outside this repository: the case mapping of the engine on
  strings that are not ASCII, the CSV parser (\<open>None\<close> when it
  throws), the date constructor on a validated string or number (milliseconds since the
  epoch), the date constructor applied to a stored timestamp object rather than to a
  number (\<open>None\<close> for an invalid date), and the lookup of an account by e-mail (its uid
  and display name).
\<close>

record env =
  lowerNonAscii :: "string \<Rightarrow> string"
  csv_parse :: "string \<Rightarrow> raw list option"
  newDate :: "date_input \<Rightarrow> int"
  dateOfTimestamp :: "timestamp \<Rightarrow> int option"
  getUserByEmail :: "string \<Rightarrow> (string \<times> string option) option"

text \<open>
  The field \<^verbatim>\<open>regions\<close> of a role document or of a request: absent (or falsy), an array,
  or a string. A truthy value of any other type (a number, \<^verbatim>\<open>true\<close>, an object) has no
  method \<^verbatim>\<open>includes\<close>; documents and requests with such a value are not modelled.
\<close>

datatype regions_field =
    RegionsAbsent
  | RegionsList "jv list"
  | RegionsText string

text \<open>A document of \<^verbatim>\<open>roles\<close>, with its id as \<open>uid\<close>.\<close>

record role_entry =
  uid :: string
  tenants :: "(string \<times> string) list option"
  regions :: regions_field
  displayName :: "string option"
  email :: "string option"

text \<open>A document of \<^verbatim>\<open>routing\<close>: the rotation cursor of one scope.\<close>

record cursor =
  lastIndex :: nat
  count :: nat
  rr_tenantId :: string
  rr_region :: string

text \<open>
  The fields that \<^verbatim>\<open>importProspects\<close> writes to a prospect document. A stored document
  holds them and whatever other fields it has (\<open>doc_other\<close>).
\<close>

record prospect_fields =
  p_tenantId :: string
  p_institutionName :: string
  p_domain :: string
  p_product :: string
  p_region :: string
  p_timezone :: string
  p_lms :: string
  p_score :: int
  p_stage :: string
  p_wedges :: "string list"
  p_whyNow :: string
  p_currentTools :: "string list"
  p_ownerUid :: "string option"
  p_ownerName :: "string option"
  p_status :: string
  p_priority :: string
  p_lastContactedAt :: "timestamp option"
  p_nextStep :: string
  p_nextStepDueAt :: "timestamp option"
  p_createdAt :: timestamp
  p_updatedAt :: timestamp

record prospect_doc =
  doc_fields :: prospect_fields
  doc_other :: "(string \<times> jv) list"

record signal_doc =
  sd_type :: string
  sd_title :: string
  sd_date :: "timestamp option"
  sd_source :: "string option"

record audit_record =
  a_type :: string
  a_tenantId :: string
  a_prospectId :: string
  a_by :: string
  a_at :: timestamp

text \<open>
  The collections: \<^verbatim>\<open>roles\<close> in query order, \<^verbatim>\<open>routing\<close> by document id,
  \<^verbatim>\<open>tenants/{tenantId}/prospects/{id}\<close> by tenant and id, and the collections whose
  documents get generated ids (contacts and signals under their prospect, \<^verbatim>\<open>audit\<close>)
  as lists in order of creation.
\<close>

record db =
  db_roles :: "role_entry list"
  db_routing :: "string \<rightharpoonup> cursor"
  db_prospects :: "string \<times> string \<rightharpoonup> prospect_doc"
  db_contacts :: "(string \<times> string \<times> contact \<times> timestamp) list"
  db_signals :: "(string \<times> string \<times> signal_doc \<times> timestamp) list"
  db_audit :: "audit_record list"

section \<open>Owner pool and round-robin assignment\<close>

text \<open>
  The filter of \<^verbatim>\<open>pickOwner\<close>:
  \<^verbatim>\<open>(r.tenants && (r.tenants[tenantId] === "sdr" || r.tenants[tenantId] === "admin")) &&
  (!r.regions || r.regions.includes(region) || r.regions.includes("ALL"))\<close>.
  An array is truthy also when empty, so \<^verbatim>\<open>!r.regions\<close> does not hold for it; it holds
  for an absent field and for the empty string. \<^verbatim>\<open>includes\<close> looks for an element of an
  array and for a substring of a string.
\<close>

fun includes_text :: "string \<Rightarrow> string \<Rightarrow> bool" where
  "includes_text [] t = (t = [])"
| "includes_text (a # s) t = (take (length t) (a # s) = t \<or> includes_text s t)"

definition eligible :: "string \<Rightarrow> string \<Rightarrow> role_entry \<Rightarrow> bool" where
  "eligible tid reg r =
     ((case tenants r of
         None \<Rightarrow> False
       | Some ts \<Rightarrow> map_of ts tid = Some ''sdr'' \<or> map_of ts tid = Some ''admin'')
      \<and> (case regions r of
           RegionsAbsent \<Rightarrow> True
         | RegionsList rs \<Rightarrow> JStr reg \<in> set rs \<or> JStr ''ALL'' \<in> set rs
         | RegionsText s \<Rightarrow> s = [] \<or> includes_text s reg \<or> includes_text s ''ALL''))"

definition pool_of :: "db \<Rightarrow> string \<Rightarrow> string \<Rightarrow> role_entry list" where
  "pool_of d tid reg = filter (eligible tid reg) (db_roles d)"

text \<open>\<^verbatim>\<open>region || "ANY"\<close> and the cursor's document id.\<close>

definition region_or_any :: "string \<Rightarrow> string" where
  "region_or_any reg = (if reg = [] then ''ANY'' else reg)"

definition rrId :: "string \<Rightarrow> string \<Rightarrow> string" where
  "rrId tid reg = tid @ ''__'' @ region_or_any reg"

text \<open>
  \<^verbatim>\<open>let idx = 0; if (snap.exists) idx = ((snap.data().lastIndex || 0) + 1) % pool.length;\<close>
  The index is a natural number: only this function writes the collection.
\<close>

definition next_index :: "cursor option \<Rightarrow> nat \<Rightarrow> nat" where
  "next_index snap n = (case snap of None \<Rightarrow> 0 | Some c \<Rightarrow> (lastIndex c + 1) mod n)"

text \<open>
  \<^verbatim>\<open>rrRef.set({ lastIndex: idx, count: FieldValue.increment(1), tenantId,
  region: region || "ANY" }, { merge: true })\<close>: the increment applies to the count stored
  when the write arrives, 0 when there is none.
\<close>

definition write_cursor :: "db \<Rightarrow> string \<Rightarrow> string \<Rightarrow> nat \<Rightarrow> db" where
  "write_cursor d tid reg idx =
     d\<lparr>db_routing := (db_routing d)(rrId tid reg \<mapsto>
         \<lparr>lastIndex = idx,
          count = (case db_routing d (rrId tid reg) of None \<Rightarrow> 1 | Some c \<Rightarrow> count c + 1),
          rr_tenantId = tid,
          rr_region = region_or_any reg\<rparr>)\<rparr>"

text \<open>\<^verbatim>\<open>pool[idx]\<close>, which is \<^verbatim>\<open>undefined\<close> out of range.\<close>

definition at_index :: "'a list \<Rightarrow> nat \<Rightarrow> 'a option" where
  "at_index xs i = (if i < length xs then Some (xs ! i) else None)"

definition pickOwner :: "db \<Rightarrow> string \<Rightarrow> string \<Rightarrow> db \<times> role_entry option" where
  "pickOwner d tid reg =
     (let pool = pool_of d tid reg in
      if pool = [] then (d, None)
      else
        let snap = db_routing d (rrId tid reg);
            idx = next_index snap (length pool)
        in (write_cursor d tid reg idx, at_index pool idx))"

text \<open>
  The same function one \<^verbatim>\<open>await\<close> at a time: the query of the roles, the read of the
  cursor, the write of the cursor. Between two of them another call may run.
\<close>

datatype call =
    Start string string
  | HavePool string string "role_entry list"
  | HaveSnap string string "role_entry list" "cursor option"
  | Done "role_entry option"

fun step :: "db \<Rightarrow> call \<Rightarrow> db \<times> call" where
  "step d (Start tid reg) =
     (let pool = pool_of d tid reg in
      if pool = [] then (d, Done None) else (d, HavePool tid reg pool))"
| "step d (HavePool tid reg pool) = (d, HaveSnap tid reg pool (db_routing d (rrId tid reg)))"
| "step d (HaveSnap tid reg pool snap) =
     (let idx = next_index snap (length pool)
      in (write_cursor d tid reg idx, Done (at_index pool idx)))"
| "step d (Done res) = (d, Done res)"

text \<open>
  Two calls in flight and a schedule: at each position \<open>True\<close> lets the first call take
  its next step, \<open>False\<close> the second.
\<close>

fun run_schedule :: "bool list \<Rightarrow> db \<times> call \<times> call \<Rightarrow> db \<times> call \<times> call" where
  "run_schedule [] s = s"
| "run_schedule (b # bs) (d, c1, c2) =
     (if b then (let (d', c1') = step d c1 in run_schedule bs (d', c1', c2))
      else (let (d', c2') = step d c2 in run_schedule bs (d', c1, c2')))"

definition finished :: "call \<Rightarrow> bool" where
  "finished c = (case c of Done res \<Rightarrow> True | _ \<Rightarrow> False)"

definition result_of :: "call \<Rightarrow> role_entry option" where
  "result_of c = (case c of Done res \<Rightarrow> res | _ \<Rightarrow> None)"

section \<open>Import\<close>

text \<open>The writes a batch collects; \<^verbatim>\<open>batch.commit()\<close> applies them together.\<close>

datatype batch_write =
    SetProspect string string prospect_fields
  | AddContact string string contact timestamp
  | AddSignal string string signal_doc timestamp
  | AddAudit audit_record

text \<open>
  \<^verbatim>\<open>batch.set(base, {...}, { merge: true })\<close>: the fields of the payload replace the
  stored ones, the other fields of an existing document stay.
\<close>

definition set_merge :: "prospect_doc option \<Rightarrow> prospect_fields \<Rightarrow> prospect_doc" where
  "set_merge old payload =
     \<lparr>doc_fields = payload,
      doc_other = (case old of None \<Rightarrow> [] | Some d \<Rightarrow> doc_other d)\<rparr>"

fun apply_write :: "db \<Rightarrow> batch_write \<Rightarrow> db" where
  "apply_write d (SetProspect tid pid payload) =
     d\<lparr>db_prospects := (db_prospects d)((tid, pid) \<mapsto> set_merge (db_prospects d (tid, pid)) payload)\<rparr>"
| "apply_write d (AddContact tid pid c t) = d\<lparr>db_contacts := db_contacts d @ [(tid, pid, c, t)]\<rparr>"
| "apply_write d (AddSignal tid pid s t) = d\<lparr>db_signals := db_signals d @ [(tid, pid, s, t)]\<rparr>"
| "apply_write d (AddAudit a) = d\<lparr>db_audit := db_audit d @ [a]\<rparr>"

definition commit :: "batch_write list \<Rightarrow> db \<Rightarrow> db" where
  "commit batch d = foldl apply_write d batch"

text \<open>
  \<^verbatim>\<open>(raw.product||"").toLowerCase()\<close>: a falsy product becomes the empty string, a
  string is lower-cased, and any other truthy value has no such method (a TypeError).
\<close>

definition lower_product :: "(string \<Rightarrow> string) \<Rightarrow> jv \<Rightarrow> string option" where
  "lower_product L v =
     (if truthy v then (case v of JStr s \<Rightarrow> Some (toLowerCase L s) | _ \<Rightarrow> None)
      else Some [])"

text \<open>\<^verbatim>\<open>x || null\<close> and \<^verbatim>\<open>x || d\<close> on an optional string.\<close>

definition or_null :: "string option \<Rightarrow> string option" where
  "or_null x = (case x of None \<Rightarrow> None | Some s \<Rightarrow> if s = [] then None else Some s)"

definition or_else :: "string option \<Rightarrow> string \<Rightarrow> string" where
  "or_else x d = (case x of None \<Rightarrow> d | Some s \<Rightarrow> if s = [] then d else s)"

text \<open>\<^verbatim>\<open>x ? new Date(x) : null\<close>, as it is stored.\<close>

definition date_or_null :: "env \<Rightarrow> date_input option \<Rightarrow> timestamp option" where
  "date_or_null E x =
     (case x of
        None \<Rightarrow> None
      | Some (DStr s) \<Rightarrow> if s = [] then None else Some (fromMillis (newDate E (DStr s)))
      | Some (DNum q) \<Rightarrow> if q = 0 then None else Some (fromMillis (newDate E (DNum q))))"

definition signal_doc_of :: "env \<Rightarrow> signal \<Rightarrow> signal_doc" where
  "signal_doc_of E s =
     \<lparr>sd_type = s_type s, sd_title = s_title s,
      sd_date = date_or_null E (map_option DStr (s_date s)),
      sd_source = s_source s\<rparr>"

text \<open>\<^verbatim>\<open>chosen.displayName || chosen.email || chosen.uid\<close>.\<close>

definition owner_name :: "role_entry \<Rightarrow> string" where
  "owner_name c = or_else (displayName c) (or_else (email c) (uid c))"

text \<open>
  The payload of the prospect write. The two server timestamps take the time of the
  commit, \<open>now\<close>.
\<close>

definition payload_of ::
  "env \<Rightarrow> int \<Rightarrow> parsed \<Rightarrow> string option \<Rightarrow> string option \<Rightarrow> prospect_fields" where
  "payload_of E now p owner_uid owner_nm =
     \<lparr>p_tenantId = tenantId p,
      p_institutionName = institutionName p,
      p_domain = domain p,
      p_product = product p,
      p_region = region p,
      p_timezone = timezone p,
      p_lms = lms p,
      p_score = score p,
      p_stage = stage p,
      p_wedges = wedges p,
      p_whyNow = whyNow p,
      p_currentTools = currentTools p,
      p_ownerUid = owner_uid,
      p_ownerName = owner_nm,
      p_status = or_else (status p) ''new'',
      p_priority = or_else (priority p) ''B'',
      p_lastContactedAt = date_or_null E (lastContactedAt p),
      p_nextStep = or_else (nextStep p) [],
      p_nextStepDueAt = date_or_null E (nextStepDueAt p),
      p_createdAt = fromMillis now,
      p_updatedAt = fromMillis now\<rparr>"

definition audit_of :: "int \<Rightarrow> string \<Rightarrow> string \<Rightarrow> string \<Rightarrow> audit_record" where
  "audit_of now caller tid pid =
     \<lparr>a_type = ''import'', a_tenantId = tid, a_prospectId = pid, a_by = caller,
      a_at = fromMillis now\<rparr>"

text \<open>
  The owner of a record: the one supplied, else the one \<^verbatim>\<open>pickOwner\<close> chooses, which
  writes the cursor at once, not into the batch.
\<close>

definition assign_owner ::
  "db \<Rightarrow> parsed \<Rightarrow> db \<times> string option \<times> string option" where
  "assign_owner d p =
     (let owner_uid = or_null (ownerUid p);
          owner_nm = or_null (ownerName p)
      in if owner_uid = None then
           (case pickOwner d (tenantId p) (region p) of
              (d', Some chosen) \<Rightarrow> (d', Some (uid chosen), Some (owner_name chosen))
            | (d', None) \<Rightarrow> (d', owner_uid, owner_nm))
         else (d, owner_uid, owner_nm))"

text \<open>The writes that one validated record adds to the batch, in the order of the source.\<close>

definition writes_of ::
  "env \<Rightarrow> int \<Rightarrow> string \<Rightarrow> parsed \<Rightarrow> string option \<Rightarrow> string option \<Rightarrow> batch_write list" where
  "writes_of E now caller p owner_uid owner_nm =
     (let pid = normalizeId (lowerNonAscii E) (domain p) (product p) in
      SetProspect (tenantId p) pid (payload_of E now p owner_uid owner_nm)
      # map (\<lambda>c. AddContact (tenantId p) pid c (fromMillis now))
          (case contacts p of None \<Rightarrow> [] | Some cs \<Rightarrow> cs)
      @ map (\<lambda>s. AddSignal (tenantId p) pid (signal_doc_of E s) (fromMillis now))
          (case signals p of None \<Rightarrow> [] | Some ss \<Rightarrow> ss)
      @ [AddAudit (audit_of now caller (tenantId p) pid)])"

text \<open>
  \<^verbatim>\<open>ProspectSchema.parse({ ...raw, product: (raw.product||"").toLowerCase() })\<close>: the
  validation of one record, with the lower-cased product in place of the record's own.
\<close>

definition validate_item :: "env \<Rightarrow> raw \<Rightarrow> error + parsed" where
  "validate_item E r =
     (case lower_product (lowerNonAscii E) (fld r ''product'') of
        None \<Rightarrow> Inl TypeError
      | Some lowered \<Rightarrow>
          ProspectSchema_parse (lowerNonAscii E) ((''product'', JStr lowered) # r))"

text \<open>One pass of the loop body over \<^verbatim>\<open>raw\<close>.\<close>

definition process_item ::
  "env \<Rightarrow> int \<Rightarrow> string \<Rightarrow> db \<Rightarrow> raw \<Rightarrow> db \<times> (error + batch_write list)" where
  "process_item E now caller d r =
     (case validate_item E r of
        Inl e \<Rightarrow> (d, Inl e)
      | Inr p \<Rightarrow>
          (case assign_owner d p of
             (d', owner_uid, owner_nm) \<Rightarrow>
               (d', Inr (writes_of E now caller p owner_uid owner_nm))))"

fun import_loop ::
  "env \<Rightarrow> int \<Rightarrow> string \<Rightarrow> db \<Rightarrow> batch_write list \<Rightarrow> nat \<Rightarrow> raw list
     \<Rightarrow> db \<times> (error + batch_write list \<times> nat)" where
  "import_loop E now caller d batch cnt [] = (d, Inr (batch, cnt))"
| "import_loop E now caller d batch cnt (r # items) =
     (case process_item E now caller d r of
        (d', Inl e) \<Rightarrow> (d', Inl e)
      | (d', Inr ws) \<Rightarrow> import_loop E now caller d' (batch @ ws) (cnt + 1) items)"

text \<open>
  The request body: delimited text, an array of records, one record, or some other
  truthy value, for which \<^verbatim>\<open>items\<close> stays empty. The elements of an array are records.
\<close>

datatype body =
    BodyText string
  | BodyArray "raw list"
  | BodyObject raw
  | BodyOther

definition items_of :: "env \<Rightarrow> body \<Rightarrow> error + raw list" where
  "items_of E b =
     (case b of
        BodyText s \<Rightarrow>
          (if s = [] then Inl NoData
           else (case csv_parse E s of None \<Rightarrow> Inl ParseError | Some recs \<Rightarrow> Inr recs))
      | BodyArray items \<Rightarrow> Inr items
      | BodyObject r \<Rightarrow> Inr [r]
      | BodyOther \<Rightarrow> Inr [])"

text \<open>
  \<^verbatim>\<open>importProspects\<close>: the caller's uid and the body may be absent. The result is the
  store after the call and either the error thrown or the count returned.
\<close>

definition importProspects ::
  "env \<Rightarrow> int \<Rightarrow> db \<Rightarrow> string option \<Rightarrow> body option \<Rightarrow> db \<times> (error + nat)" where
  "importProspects E now d auth_uid data =
     (case or_null auth_uid of
        None \<Rightarrow> (d, Inl AuthRequired)
      | Some caller \<Rightarrow>
          (case data of
             None \<Rightarrow> (d, Inl NoData)
           | Some b \<Rightarrow>
               (case items_of E b of
                  Inl e \<Rightarrow> (d, Inl e)
                | Inr items \<Rightarrow>
                    (case import_loop E now caller d [] 0 items of
                       (d', Inl e) \<Rightarrow> (d', Inl e)
                     | (d', Inr (batch, cnt)) \<Rightarrow> (commit batch d', Inr cnt)))))"

section \<open>Role management\<close>


text \<open>
  \<^verbatim>\<open>ref.set({ tenants, regions: regions || [], email, displayName: ... }, { merge: true })\<close>:
  the request's \<^verbatim>\<open>regions\<close> is stored as it is when truthy, else the empty array; on an
  existing document the keys of the map \<^verbatim>\<open>tenants\<close> are merged and the three other
  fields replaced; a new document takes its place in the order of the ids.
\<close>

text \<open>\<^verbatim>\<open>regions || []\<close>.\<close>

definition regions_or_empty :: "regions_field \<Rightarrow> regions_field" where
  "regions_or_empty v =
     (case v of
        RegionsAbsent \<Rightarrow> RegionsList []
      | RegionsList xs \<Rightarrow> RegionsList xs
      | RegionsText s \<Rightarrow> if s = [] then RegionsList [] else RegionsText s)"




section \<open>Scheduled scoring\<close>

text \<open>
  The body of \<^verbatim>\<open>snap.forEach\<close> in \<^verbatim>\<open>recalculateScores\<close>. \<^verbatim>\<open>last\<close> is the date built from
  \<^verbatim>\<open>p.lastContactedAt.seconds * 1000\<close> when the seconds are truthy, and from the timestamp
  object itself when they are 0. Times are integers of milliseconds, \<^verbatim>\<open>Math.floor\<close> of
  the quotient is integer division, and a comparison with the days of an invalid date is
  false.
\<close>

definition last_of :: "env \<Rightarrow> timestamp \<Rightarrow> int option" where
  "last_of E ts = (if seconds ts \<noteq> 0 then Some (seconds ts * 1000) else dateOfTimestamp E ts)"

definition ms_per_day :: int where
  "ms_per_day = 1000 * 60 * 60 * 24"

definition decayed_score :: "env \<Rightarrow> int \<Rightarrow> prospect_fields \<Rightarrow> int" where
  "decayed_score E now p =
     (let score0 = (if p_score p = 0 then 0 else p_score p) in
      case p_lastContactedAt p of
        None \<Rightarrow> score0
      | Some ts \<Rightarrow>
          (case last_of E ts of
             None \<Rightarrow> score0
           | Some l \<Rightarrow> if (now - l) div ms_per_day \<ge> 3 then max 0 (score0 - 2) else score0))"

definition stage_of_score :: "int \<Rightarrow> string" where
  "stage_of_score s = (if s \<ge> 80 then ''P1'' else if s \<ge> 60 then ''nurture'' else ''research'')"

text \<open>\<^verbatim>\<open>batch.update(doc.ref, { score, stage, updatedAt: new Date() })\<close>.\<close>

definition recalc_doc :: "env \<Rightarrow> int \<Rightarrow> prospect_doc \<Rightarrow> prospect_doc" where
  "recalc_doc E now d =
     (let s = decayed_score E now (doc_fields d) in
      d\<lparr>doc_fields := (doc_fields d)\<lparr>p_score := s, p_stage := stage_of_score s,
                                       p_updatedAt := fromMillis now\<rparr>\<rparr>)"

definition recalculateScores :: "env \<Rightarrow> int \<Rightarrow> db \<Rightarrow> db" where
  "recalculateScores E now d =
     d\<lparr>db_prospects := (\<lambda>k. map_option (recalc_doc E now) (db_prospects d k))\<rparr>"

section \<open>Consecutive calls and sample data\<close>

text \<open>\<open>n\<close> calls of \<open>pickOwner\<close> for one scope, one after the other, and what they return.\<close>

fun assign_n :: "nat \<Rightarrow> db \<Rightarrow> string \<Rightarrow> string \<Rightarrow> db \<times> role_entry option list" where
  "assign_n 0 d tid reg = (d, [])"
| "assign_n (Suc n) d tid reg =
     (case pickOwner d tid reg of
        (d', chosen) \<Rightarrow> (case assign_n n d' tid reg of (d'', rest) \<Rightarrow> (d'', chosen # rest)))"

text \<open>A small store: two eligible owners, one with an empty list of regions, an administrator.\<close>

definition alice :: role_entry where
  "alice = \<lparr>uid = ''u_alice'', tenants = Some [(''acme'', ''sdr'')], regions = RegionsAbsent,
            displayName = Some ''Alice'', email = Some ''alice@example.edu''\<rparr>"

definition bob :: role_entry where
  "bob = \<lparr>uid = ''u_bob'', tenants = Some [(''acme'', ''admin'')], regions = RegionsList [JStr ''ALL''],
          displayName = None, email = Some ''bob@example.edu''\<rparr>"

definition carol :: role_entry where
  "carol = \<lparr>uid = ''u_carol'', tenants = Some [(''acme'', ''sdr'')], regions = RegionsList [],
            displayName = Some ''Carol'', email = None\<rparr>"

definition store0 :: db where
  "store0 = \<lparr>db_roles = [alice, bob, carol], db_routing = Map.empty, db_prospects = Map.empty,
             db_contacts = [], db_signals = [], db_audit = []\<rparr>"


definition env0 :: env where
  "env0 = \<lparr>lowerNonAscii = (\<lambda>s. s), csv_parse = (\<lambda>s. None), newDate = (\<lambda>x. 0), dateOfTimestamp = (\<lambda>t. None),
           getUserByEmail = (\<lambda>e. if e = ''dana@example.edu'' then Some (''u_dana'', None) else None)\<rparr>"



text \<open>The audit records and the prospect documents that a batch writes, in order.\<close>

fun audit_writes :: "batch_write list \<Rightarrow> audit_record list" where
  "audit_writes [] = []"
| "audit_writes (AddAudit a # ws) = a # audit_writes ws"
| "audit_writes (w # ws) = audit_writes ws"

fun prospect_writes :: "batch_write list \<Rightarrow> (string \<times> string) list" where
  "prospect_writes [] = []"
| "prospect_writes (SetProspect tid pid payload # ws) = (tid, pid) # prospect_writes ws"
| "prospect_writes (w # ws) = prospect_writes ws"



text \<open>The payloads that a batch writes to one prospect document, in order.\<close>

fun payloads_for :: "string \<times> string \<Rightarrow> batch_write list \<Rightarrow> prospect_fields list" where
  "payloads_for k [] = []"
| "payloads_for k (SetProspect tid pid f # ws) =
     (if k = (tid, pid) then f # payloads_for k ws else payloads_for k ws)"
| "payloads_for k (w # ws) = payloads_for k ws"

text \<open>The error of the first record of a list that does not validate.\<close>

fun first_invalid :: "env \<Rightarrow> raw list \<Rightarrow> error option" where
  "first_invalid E [] = None"
| "first_invalid E (r # items) =
     (case validate_item E r of Inl e \<Rightarrow> Some e | Inr p \<Rightarrow> first_invalid E items)"

text \<open>The document id of a validated record.\<close>

definition prospect_id :: "env \<Rightarrow> parsed \<Rightarrow> string" where
  "prospect_id E p = normalizeId (lowerNonAscii E) (domain p) (product p)"

text \<open>Sample records: one that validates, one with an unknown product, and what the first parses to.\<close>

definition good_record :: raw where
  "good_record = [(''tenantId'', JStr ''acme''), (''institutionName'', JStr ''Example University''),
                  (''domain'', JStr ''Example.EDU ''), (''product'', JStr ''Verity'')]"

definition bad_record :: raw where
  "bad_record = [(''tenantId'', JStr ''acme''), (''institutionName'', JStr ''Other College''),
                 (''domain'', JStr ''other.edu''), (''product'', JStr ''unknown'')]"

definition good_parsed :: parsed where
  "good_parsed = \<lparr>tenantId = ''acme'', institutionName = ''Example University'',
     domain = ''example.edu'', product = ''verity'', region = [], timezone = [], lms = [],
     score = 0, stage = ''research'', wedges = [], whyNow = [], currentTools = [],
     ownerUid = None, ownerName = None, status = None, priority = None,
     lastContactedAt = None, nextStep = None, nextStepDueAt = None, contacts = None,
     signals = None\<rparr>"

text \<open>Two stores hold the same roles, prospects, contacts, signals and audit records.\<close>

definition keeps_documents :: "db \<Rightarrow> db \<Rightarrow> bool" where
  "keeps_documents d d' =
     (db_roles d' = db_roles d \<and> db_prospects d' = db_prospects d
      \<and> db_contacts d' = db_contacts d \<and> db_signals d' = db_signals d
      \<and> db_audit d' = db_audit d)"

text \<open>A stored prospect with a score, a stage set by hand and a field of its own, and a record of a tenant without roles.\<close>

definition old_doc :: prospect_doc where
  "old_doc =
     \<lparr>doc_fields =
        \<lparr>p_tenantId = ''acme'', p_institutionName = ''Example University'',
         p_domain = ''example.edu'', p_product = ''verity'', p_region = [], p_timezone = [],
         p_lms = [], p_score = 82, p_stage = ''hold'', p_wedges = [], p_whyNow = [],
         p_currentTools = [], p_ownerUid = Some ''u_bob'', p_ownerName = Some ''bob@example.edu'',
         p_status = ''working'', p_priority = ''A'',
         p_lastContactedAt = Some \<lparr>seconds = 86400, nanoseconds = 500000000\<rparr>,
         p_nextStep = [], p_nextStepDueAt = None,
         p_createdAt = \<lparr>seconds = 0, nanoseconds = 0\<rparr>,
         p_updatedAt = \<lparr>seconds = 0, nanoseconds = 0\<rparr>\<rparr>,
      doc_other = [(''notes'', JStr ''call back'')]\<rparr>"

definition store2 :: db where
  "store2 = store0\<lparr>db_prospects := [(''acme'', ''example.edu_verity'') \<mapsto> old_doc]\<rparr>"



text \<open>The stored prospect with another score and date of last contact.\<close>

definition contacted_doc :: "int \<Rightarrow> timestamp option \<Rightarrow> prospect_doc" where
  "contacted_doc s t = old_doc\<lparr>doc_fields := (doc_fields old_doc)\<lparr>p_score := s, p_lastContactedAt := t\<rparr>\<rparr>"

text \<open>
  The case mapping of the engine on two strings: \<open>a\<close> followed by the capital sigma
  U+03A3, which at the end of a word becomes the final sigma U+03C2, and \<open>a\<close> followed
  by the small sigma U+03C3, which stays. On the other strings used below the mapping does
  not matter.
\<close>

definition final_sigma_lower :: "string \<Rightarrow> string" where
  "final_sigma_lower s =
     (if s = [CHR ''a'', CHR 0xCE, CHR 0xA3] then [CHR ''a'', CHR 0xCF, CHR 0x82] else s)"

text \<open>
  The owner a record is written with: the one it supplies; else none when the pool of its
  tenant and region is empty; else the uid and name of a member of that pool.
\<close>

definition owner_written :: "db \<Rightarrow> parsed \<Rightarrow> string option \<times> string option \<Rightarrow> bool" where
  "owner_written d p w =
     (if or_null (ownerUid p) \<noteq> None then w = (or_null (ownerUid p), or_null (ownerName p))
      else if pool_of d (tenantId p) (region p) = [] then w = (None, or_null (ownerName p))
      else w \<in> set (map (\<lambda>chosen. (Some (uid chosen), Some (owner_name chosen)))
                     (pool_of d (tenantId p) (region p))))"

text \<open>
  The payloads that a call writes to the prospect document \<open>k\<close>: those of the validated
  records with this tenant and id, each with the owner it was given, in the order of the input.
\<close>

definition payloads_of_records ::
  "env \<Rightarrow> int \<Rightarrow> string \<times> string \<Rightarrow> (parsed \<times> string option \<times> string option) list
     \<Rightarrow> prospect_fields list" where
  "payloads_of_records E now k zs =
     map (\<lambda>(p, ou, on). payload_of E now p ou on)
       (filter (\<lambda>(p, ou, on). (tenantId p, prospect_id E p) = k) zs)"



section \<open>Properties of the identity normalizer\<close>

lemma strip_ws_skip:
  "ws_prefix xs \<noteq> 0 \<Longrightarrow> xs \<noteq> [] \<Longrightarrow> strip_ws xs = strip_ws (drop (ws_prefix xs) xs)"
  by (cases xs) (simp_all add: strip_ws.simps(2) del: ws_prefix.simps)

lemma strip_ws_keep:
  "ws_prefix (a # xs) = 0 \<Longrightarrow> strip_ws (a # xs) = a # strip_ws xs"
  by (simp add: strip_ws.simps(2) del: ws_prefix.simps)

lemma same_modulo_space_strip:
  "same_modulo_space same xs ys \<Longrightarrow> list_all2 same (strip_ws xs) (strip_ws ys)"
proof (induction same xs ys rule: same_modulo_space.induct)
  case (1 same xs ys)
  show ?case
  proof (cases "ws_prefix xs \<noteq> 0 \<and> xs \<noteq> []")
    case True
    then have "same_modulo_space same (drop (ws_prefix xs) xs) ys"
      using "1.prems" by (subst (asm) same_modulo_space.simps) simp
    then show ?thesis using "1.IH"(1) True strip_ws_skip by simp
  next
    case False
    note nx = this
    show ?thesis
    proof (cases "ws_prefix ys \<noteq> 0 \<and> ys \<noteq> []")
      case True
      then have "same_modulo_space same xs (drop (ws_prefix ys) ys)"
        using "1.prems" nx by (subst (asm) same_modulo_space.simps) auto
      then show ?thesis using "1.IH"(2) nx True strip_ws_skip by simp
    next
      case False
      note ny = this
      show ?thesis
      proof (cases xs)
        case Nil
        then have "ys = []"
          using "1.prems" nx ny by (subst (asm) same_modulo_space.simps) auto
        then show ?thesis using Nil by simp
      next
        case (Cons a xs')
        note xs = this
        show ?thesis
        proof (cases ys)
          case Nil
          then show ?thesis
            using "1.prems" nx ny xs by (subst (asm) same_modulo_space.simps) auto
        next
          case (Cons b ys')
          have s: "same a b \<and> same_modulo_space same xs' ys'"
            using "1.prems" nx ny xs Cons by (subst (asm) same_modulo_space.simps) auto
          have kx: "ws_prefix (a # xs') = 0" using nx xs by simp
          have ky: "ws_prefix (b # ys') = 0" using ny Cons by simp
          have "list_all2 same (strip_ws xs') (strip_ws ys')"
            using "1.IH"(3)[OF nx ny xs Cons] s by simp
          then show ?thesis
            using s xs Cons strip_ws_keep[OF kx] strip_ws_keep[OF ky] by simp
        qed
      qed
    qed
  qed
qed

lemma same_space_strip_eq:
  "same_modulo_space (=) xs ys \<Longrightarrow> strip_ws xs = strip_ws ys"
  using same_modulo_space_strip[of "(=)" xs ys] by (simp add: list_all2_eq)

lemma same_letter_strip_eq:
  assumes "same_modulo_space same_letter xs ys"
  shows "map toLowerChar (strip_ws xs) = map toLowerChar (strip_ws ys)"
proof -
  have "list_all2 same_letter us vs \<Longrightarrow> map toLowerChar us = map toLowerChar vs" for us vs
    by (induction rule: list_all2_induct) (simp_all add: same_letter_def)
  then show ?thesis using same_modulo_space_strip[OF assms] by blast
qed

lemma normalizeId_example:
  "normalizeId L ''Example.EDU '' ''verity'' = normalizeId L ''example.edu'' ''verity''"
  by code_simp

lemma same_modulo_space_example:
  "same_modulo_space same_letter ''Example.EDU '' ''example.edu''"
  by code_simp

lemma ascii_example:
  "list_all is_ascii (strip_ws ''Example.EDU '')" "list_all is_ascii (strip_ws ''example.edu'')"
  by code_simp+

lemma no_break_space_example:
  "same_modulo_space (=) [CHR ''a'', CHR 0xC2, CHR 0xA0, CHR ''b'', CHR 0xE2, CHR 0x80, CHR 0xA8] ''ab''"
  by code_simp

lemma final_sigma_example:
  "normalizeId final_sigma_lower [CHR ''a'', CHR 0xCE, CHR 0xA3] ''verity''
     = [CHR ''a'', CHR 0xCF, CHR 0x82] @ ''_verity''"
  "normalizeId final_sigma_lower [CHR ''a'', CHR 0xCF, CHR 0x83] ''verity''
     = [CHR ''a'', CHR 0xCF, CHR 0x83] @ ''_verity''"
  by code_simp+

text \<open>
  Claim C6, as the code has it. \<open>normalizeId\<close> is a total function of its two
  arguments: it removes every whitespace character of the domain (the class \<open>\s\<close>),
  lower-cases what is left with the case mapping of the engine and appends the separator
  \<open>_\<close> and the product. Two domains that differ only in whitespace give the same
  identifier, and so do two domains whose other characters are ASCII and that differ only
  in whitespace and letter case; in particular
  \<open>normalizeId "Example.EDU " "verity" = normalizeId "example.edu" "verity"\<close>.
\<close>

theorem normalizeId_space_case_invariant:
  "normalizeId L d p = toLowerCase L (strip_ws d) @ CHR ''_'' # p
   \<and> (same_modulo_space (=) d1 d2 \<longrightarrow> normalizeId L d1 p = normalizeId L d2 p)
   \<and> (list_all is_ascii (strip_ws d1) \<and> list_all is_ascii (strip_ws d2)
        \<and> same_modulo_space same_letter d1 d2 \<longrightarrow>
        normalizeId L d1 p = normalizeId L d2 p)
   \<and> normalizeId L ''Example.EDU '' ''verity'' = normalizeId L ''example.edu'' ''verity''"
proof -
  have 1: "normalizeId L d p = toLowerCase L (strip_ws d) @ CHR ''_'' # p"
    by (simp add: normalizeId_def)
  have 2: "same_modulo_space (=) d1 d2 \<longrightarrow> normalizeId L d1 p = normalizeId L d2 p"
    using same_space_strip_eq[of d1 d2] by (simp add: normalizeId_def)
  have 3: "list_all is_ascii (strip_ws d1) \<and> list_all is_ascii (strip_ws d2)
        \<and> same_modulo_space same_letter d1 d2 \<longrightarrow>
        normalizeId L d1 p = normalizeId L d2 p"
    using same_letter_strip_eq[of d1 d2] by (simp add: normalizeId_def toLowerCase_def)
  show ?thesis using 1 2 3 normalizeId_example by (intro conjI)
qed

theorem normalizeId_space_case_invariant_witness:
  "same_modulo_space (=) [CHR ''a'', CHR 0xC2, CHR 0xA0, CHR ''b'', CHR 0xE2, CHR 0x80, CHR 0xA8] ''ab''
   \<and> normalizeId final_sigma_lower
        [CHR ''a'', CHR 0xC2, CHR 0xA0, CHR ''b'', CHR 0xE2, CHR 0x80, CHR 0xA8] ''verity''
       = normalizeId final_sigma_lower ''ab'' ''verity''
   \<and> list_all is_ascii (strip_ws ''Example.EDU '') \<and> list_all is_ascii (strip_ws ''example.edu'')
   \<and> same_modulo_space same_letter ''Example.EDU '' ''example.edu''
   \<and> normalizeId final_sigma_lower ''Example.EDU '' ''verity''
       = normalizeId final_sigma_lower ''example.edu'' ''verity''"
  using normalizeId_space_case_invariant
          [where L = final_sigma_lower and p = "''verity''"
             and ?d1.0 = "[CHR ''a'', CHR 0xC2, CHR 0xA0, CHR ''b'', CHR 0xE2, CHR 0x80, CHR 0xA8]"
             and ?d2.0 = "''ab''"]
        normalizeId_space_case_invariant
          [where L = final_sigma_lower and p = "''verity''"
             and ?d1.0 = "''Example.EDU ''" and ?d2.0 = "''example.edu''"]
        no_break_space_example same_modulo_space_example ascii_example
  by blast

theorem normalizeId_final_sigma_counterexample:
  "normalizeId final_sigma_lower [CHR ''a'', CHR 0xCE, CHR 0xA3] ''verity''
     = [CHR ''a'', CHR 0xCF, CHR 0x82] @ ''_verity''
   \<and> normalizeId final_sigma_lower [CHR ''a'', CHR 0xCF, CHR 0x83] ''verity''
     = [CHR ''a'', CHR 0xCF, CHR 0x83] @ ''_verity''
   \<and> normalizeId final_sigma_lower [CHR ''a'', CHR 0xCE, CHR 0xA3] ''verity''
     \<noteq> normalizeId final_sigma_lower [CHR ''a'', CHR 0xCF, CHR 0x83] ''verity''"
  using final_sigma_example by simp

section \<open>Properties of the owner pool and the rotation\<close>


lemma at_index_in: "at_index xs i = Some x \<Longrightarrow> x \<in> set xs"
  by (auto simp: at_index_def split: if_splits)

lemma pickOwner_in_pool: "pickOwner d tid reg = (d', Some x) \<Longrightarrow> x \<in> set (pool_of d tid reg)"
  by (auto simp: pickOwner_def Let_def split: if_splits dest: at_index_in)

lemma next_index_lt: "0 < n \<Longrightarrow> next_index snap n < n"
  by (simp add: next_index_def split: option.splits)

lemma pool_write_cursor: "pool_of (write_cursor d tid reg i) t r = pool_of d t r"
  by (simp add: pool_of_def write_cursor_def)

lemma routing_write_cursor: "db_routing (write_cursor d tid reg i) (rrId tid reg) =
   Some \<lparr>lastIndex = i, count = (case db_routing d (rrId tid reg) of None \<Rightarrow> 1 | Some c \<Rightarrow> count c + 1),
          rr_tenantId = tid, rr_region = region_or_any reg\<rparr>"
  by (simp add: write_cursor_def)

lemma pickOwner_nonempty:
  assumes "pool_of d tid reg \<noteq> []"
  shows "pickOwner d tid reg =
     (write_cursor d tid reg (next_index (db_routing d (rrId tid reg)) (length (pool_of d tid reg))),
      Some (pool_of d tid reg ! next_index (db_routing d (rrId tid reg)) (length (pool_of d tid reg))))"
  using assms by (simp add: pickOwner_def Let_def at_index_def next_index_lt)

lemma pickOwner_empty: "pool_of d tid reg = [] \<Longrightarrow> pickOwner d tid reg = (d, None)"
  by (simp add: pickOwner_def)

lemma next_index_after:
  assumes "0 < n"
  shows "next_index (db_routing (write_cursor d tid reg (next_index (db_routing d (rrId tid reg)) n)) (rrId tid reg)) n
       = (next_index (db_routing d (rrId tid reg)) n + 1) mod n"
  by (simp add: routing_write_cursor next_index_def)

lemma assign_n_indices:
  assumes "pool_of d tid reg = pool" "pool \<noteq> []"
  shows "snd (assign_n n d tid reg) =
     map (\<lambda>i. Some (pool ! ((next_index (db_routing d (rrId tid reg)) (length pool) + i) mod length pool))) [0..<n]"
  using assms
proof (induction n arbitrary: d)
  case 0
  then show ?case by simp
next
  case (Suc n)
  let ?N = "length pool"
  let ?k = "next_index (db_routing d (rrId tid reg)) ?N"
  let ?d' = "write_cursor d tid reg ?k"
  have N: "0 < ?N" using Suc.prems by simp
  have po: "pickOwner d tid reg = (?d', Some (pool ! ?k))"
    using pickOwner_nonempty[of d tid reg] Suc.prems by simp
  have pool': "pool_of ?d' tid reg = pool" using Suc.prems by (simp add: pool_write_cursor)
  have k': "next_index (db_routing ?d' (rrId tid reg)) ?N = (?k + 1) mod ?N"
    using next_index_after[OF N] by simp
  have IH: "snd (assign_n n ?d' tid reg) =
      map (\<lambda>i. Some (pool ! (((?k + 1) mod ?N + i) mod ?N))) [0..<n]"
    using Suc.IH[OF pool' Suc.prems(2)] k' by simp
  have klt: "?k < ?N" using next_index_lt[OF N] .
  have shift: "map (\<lambda>i. Some (pool ! ((?k + i) mod ?N))) [0..<Suc n] =
      Some (pool ! ?k) # map (\<lambda>i. Some (pool ! (((?k + 1) mod ?N + i) mod ?N))) [0..<n]"
  proof -
    have "[0..<Suc n] = 0 # map Suc [0..<n]"
      by (simp add: upt_conv_Cons map_Suc_upt del: upt_Suc)
    then have "map (\<lambda>i. Some (pool ! ((?k + i) mod ?N))) [0..<Suc n] =
        Some (pool ! (?k mod ?N)) # map (\<lambda>i. Some (pool ! ((?k + Suc i) mod ?N))) [0..<n]"
      by (simp add: comp_def del: upt_Suc)
    moreover have "\<And>i. ((?k + 1) mod ?N + i) mod ?N = (?k + Suc i) mod ?N"
      by (simp add: mod_add_left_eq)
    ultimately show ?thesis using klt by simp
  qed
  show ?case
    using po IH shift by (simp add: case_prod_unfold del: upt_Suc)
qed

lemma rotate_as_map:
  assumes "xs \<noteq> []"
  shows "map (\<lambda>i. xs ! ((k + i) mod length xs)) [0..<length xs] = rotate k xs"
  using assms by (intro nth_equalityI) (simp_all add: nth_rotate)


lemma count_list_map_Some: "count_list (map Some xs) (Some x) = count_list xs x"
  by (induction xs) auto

lemma count_list_rotate: "count_list (rotate k xs) x = count_list xs x"
proof -
  have "count_list (drop n xs @ take n xs) x = count_list (take n xs @ drop n xs) x" for n
    by (simp only: count_list_append add.commute)
  then show ?thesis by (simp add: rotate_drop_take)
qed

text \<open>
  Claim C3. For a scope whose pool is fixed and not empty, of size \<open>N\<close>: the first
  call ever selects index 0; a later call selects \<open>(lastIndex + 1) mod N\<close>; either way
  the selected index is stored with the counter incremented by one. Hence \<open>N + 1\<close>
  consecutive calls return the pool in cyclic order from the first selected index, every
  member as often in the first \<open>N\<close> as it is in the pool, and the last of them returns
  the first again; from an empty cursor they return the pool in its own order.
\<close>

theorem pickOwner_round_robin:
  assumes "pool_of d tid reg = pool" and "pool \<noteq> []"
  shows
    "(db_routing d (rrId tid reg) = None \<longrightarrow>
        snd (pickOwner d tid reg) = Some (pool ! 0)
        \<and> map_option (\<lambda>c. (lastIndex c, count c)) (db_routing (fst (pickOwner d tid reg)) (rrId tid reg))
            = Some (0, 1))
     \<and> (\<forall>c. db_routing d (rrId tid reg) = Some c \<longrightarrow>
        snd (pickOwner d tid reg) = Some (pool ! ((lastIndex c + 1) mod length pool))
        \<and> map_option (\<lambda>c. (lastIndex c, count c)) (db_routing (fst (pickOwner d tid reg)) (rrId tid reg))
            = Some ((lastIndex c + 1) mod length pool, count c + 1))
     \<and> (db_routing d (rrId tid reg) = None \<longrightarrow>
        snd (assign_n (Suc (length pool)) d tid reg) = map Some pool @ [Some (pool ! 0)])
     \<and> (let k = next_index (db_routing d (rrId tid reg)) (length pool) in
        snd (assign_n (Suc (length pool)) d tid reg)
          = map Some (rotate k pool) @ [Some (rotate k pool ! 0)]
        \<and> (\<forall>x. count_list (take (length pool) (snd (assign_n (Suc (length pool)) d tid reg))) (Some x)
              = count_list pool x))"
proof -
  let ?N = "length pool"
  let ?k = "next_index (db_routing d (rrId tid reg)) ?N"
  have N: "0 < ?N" using assms by simp
  have po: "pickOwner d tid reg = (write_cursor d tid reg ?k, Some (pool ! ?k))"
    using pickOwner_nonempty[of d tid reg] assms by simp
  have first: "db_routing d (rrId tid reg) = None \<Longrightarrow> ?k = 0"
    by (simp add: next_index_def)
  have later: "db_routing d (rrId tid reg) = Some c \<Longrightarrow> ?k = (lastIndex c + 1) mod ?N" for c
    by (simp add: next_index_def)
  have run: "snd (assign_n (Suc ?N) d tid reg) = map (\<lambda>i. Some (pool ! ((?k + i) mod ?N))) [0..<Suc ?N]"
    using assign_n_indices[OF assms] .
  have "map (\<lambda>i. Some (pool ! ((?k + i) mod ?N))) [0..<Suc ?N]
      = map Some (map (\<lambda>i. pool ! ((?k + i) mod ?N)) [0..<?N]) @ [Some (pool ! ((?k + ?N) mod ?N))]"
    by (simp add: comp_def)
  also have "map (\<lambda>i. pool ! ((?k + i) mod ?N)) [0..<?N] = rotate ?k pool"
    using rotate_as_map[OF assms(2)] .
  also have "pool ! ((?k + ?N) mod ?N) = rotate ?k pool ! 0"
    using N by (simp add: nth_rotate)
  finally have cyc: "snd (assign_n (Suc ?N) d tid reg) = map Some (rotate ?k pool) @ [Some (rotate ?k pool ! 0)]"
    using run by (simp del: assign_n.simps)
  have once: "count_list (take ?N (snd (assign_n (Suc ?N) d tid reg))) (Some x) = count_list pool x" for x
    by (simp add: cyc count_list_map_Some count_list_rotate del: assign_n.simps)
  have fresh: "db_routing d (rrId tid reg) = None \<Longrightarrow>
      snd (assign_n (Suc ?N) d tid reg) = map Some pool @ [Some (pool ! 0)]"
    using cyc first N by (simp add: nth_rotate del: assign_n.simps)
  have a: "db_routing d (rrId tid reg) = None \<longrightarrow>
        snd (pickOwner d tid reg) = Some (pool ! 0)
        \<and> map_option (\<lambda>c. (lastIndex c, count c)) (db_routing (fst (pickOwner d tid reg)) (rrId tid reg))
            = Some (0, 1)"
    using po first by (simp add: routing_write_cursor)
  have b: "\<forall>c. db_routing d (rrId tid reg) = Some c \<longrightarrow>
        snd (pickOwner d tid reg) = Some (pool ! ((lastIndex c + 1) mod length pool))
        \<and> map_option (\<lambda>c. (lastIndex c, count c)) (db_routing (fst (pickOwner d tid reg)) (rrId tid reg))
            = Some ((lastIndex c + 1) mod length pool, count c + 1)"
    using po later by (simp add: routing_write_cursor)
  show ?thesis
    unfolding Let_def using a b fresh cyc once by blast
qed

theorem pickOwner_round_robin_witness:
  "pool_of store0 ''acme'' ''east'' = [alice, bob] \<and> [alice, bob] \<noteq> []
   \<and> db_routing store0 (rrId ''acme'' ''east'') = None
   \<and> snd (assign_n 3 store0 ''acme'' ''east'') = [Some alice, Some bob, Some alice]"
proof -
  have p: "pool_of store0 ''acme'' ''east'' = [alice, bob]"
    by (simp add: pool_of_def store0_def alice_def bob_def carol_def eligible_def)
  have r: "db_routing store0 (rrId ''acme'' ''east'') = None"
    by (simp add: store0_def)
  have "snd (assign_n (Suc (length [alice, bob])) store0 ''acme'' ''east'')
          = map Some [alice, bob] @ [Some ([alice, bob] ! 0)]"
    using pickOwner_round_robin[OF p] r by blast
  then show ?thesis
    using p r by (simp add: numeral_3_eq_3 del: assign_n.simps)
qed

lemma regions_or_empty_simps [simp]:
  "regions_or_empty RegionsAbsent = RegionsList []"
  "regions_or_empty (RegionsList xs) = RegionsList xs"
  "regions_or_empty (RegionsText s) = (if s = [] then RegionsList [] else RegionsText s)"
  by (simp_all add: regions_or_empty_def)











section \<open>Concurrent assignment\<close>

lemma step_thrice:
  "run_schedule [True, True, True, False, False, False] (d, Start tid reg, Start tid reg) =
     (case pickOwner d tid reg of
        (d1, o1) \<Rightarrow> (case pickOwner d1 tid reg of (d2, o2) \<Rightarrow> (d2, Done o1, Done o2)))"
proof (cases "pool_of d tid reg = []")
  case True
  then show ?thesis by (simp add: pickOwner_def)
next
  case False
  then show ?thesis
    by (simp add: pickOwner_def Let_def pool_write_cursor)
qed

lemma next_index_neq:
  assumes "2 \<le> n"
  shows "next_index (Some \<lparr>lastIndex = next_index snap n, count = c, rr_tenantId = t, rr_region = g\<rparr>) n
          \<noteq> next_index snap n"
proof -
  let ?k = "next_index snap n"
  have k: "?k < n" using assms next_index_lt[of n snap] by simp
  have "(?k + 1) mod n \<noteq> ?k"
  proof (cases "?k + 1 = n")
    case True
    then show ?thesis using assms by simp
  next
    case False
    then have "?k + 1 < n" using k by simp
    then show ?thesis by simp
  qed
  then show ?thesis by (simp add: next_index_def)
qed

lemma sequential_differ:
  assumes "distinct (pool_of d tid reg)" and "2 \<le> length (pool_of d tid reg)"
  shows "snd (pickOwner d tid reg) \<noteq> snd (pickOwner (fst (pickOwner d tid reg)) tid reg)"
proof -
  let ?pool = "pool_of d tid reg"
  let ?N = "length ?pool"
  let ?k = "next_index (db_routing d (rrId tid reg)) ?N"
  let ?d1 = "write_cursor d tid reg ?k"
  let ?k' = "next_index (db_routing ?d1 (rrId tid reg)) ?N"
  have ne: "?pool \<noteq> []"
  proof
    assume "?pool = []"
    then have "length ?pool = 0" by simp
    then show False using assms(2) by simp
  qed
  have N: "0 < ?N" using assms(2) by linarith
  have 1: "pickOwner d tid reg = (?d1, Some (?pool ! ?k))"
    using pickOwner_nonempty[OF ne] .
  have ne1: "pool_of ?d1 tid reg \<noteq> []" using ne by (simp add: pool_write_cursor)
  have 2: "pickOwner ?d1 tid reg = (write_cursor ?d1 tid reg ?k', Some (?pool ! ?k'))"
    using pickOwner_nonempty[OF ne1] by (simp add: pool_write_cursor)
  have "?k' \<noteq> ?k"
    using next_index_neq[OF assms(2)] by (simp add: routing_write_cursor)
  moreover have "?k < ?N" "?k' < ?N" using next_index_lt[OF N] by simp_all
  ultimately have "?pool ! ?k \<noteq> ?pool ! ?k'"
    using assms(1) by (simp add: nth_eq_iff_index_eq)
  then show ?thesis using 1 2 by simp
qed

lemma racing_same:
  "run_schedule [True, True, False, False, True, False] (d, Start tid reg, Start tid reg) =
     (let pool = pool_of d tid reg in
      if pool = [] then (d, Done None, Done None)
      else
        let idx = next_index (db_routing d (rrId tid reg)) (length pool) in
        (write_cursor (write_cursor d tid reg idx) tid reg idx,
         Done (at_index pool idx), Done (at_index pool idx)))"
  by (simp add: Let_def)

text \<open>
  Claim C9, as the code has it. The cursor is advanced by a read followed by a separate
  write, not by a transaction. Calls that run one after the other behave as
  \<open>pickOwner\<close> composed with itself, and with two or more distinct pool members two
  consecutive calls select different owners. When both calls read the cursor before
  either writes it, both select the same index and owner, and the cursor holds that index
  with the counter incremented twice.
\<close>

theorem cursor_read_then_write:
  "run_schedule [True, True, True, False, False, False] (d, Start tid reg, Start tid reg) =
     (case pickOwner d tid reg of
        (d1, o1) \<Rightarrow> (case pickOwner d1 tid reg of (d2, o2) \<Rightarrow> (d2, Done o1, Done o2)))
   \<and> (distinct (pool_of d tid reg) \<and> 2 \<le> length (pool_of d tid reg) \<longrightarrow>
        snd (pickOwner d tid reg) \<noteq> snd (pickOwner (fst (pickOwner d tid reg)) tid reg))
   \<and> (case run_schedule [True, True, False, False, True, False]
              (d, Start tid reg, Start tid reg) of
         (d', c1, c2) \<Rightarrow>
           finished c1 \<and> finished c2 \<and> result_of c1 = result_of c2
           \<and> (pool_of d tid reg \<noteq> [] \<longrightarrow>
                result_of c1 = Some (pool_of d tid reg !
                   next_index (db_routing d (rrId tid reg)) (length (pool_of d tid reg)))
                \<and> map_option (\<lambda>c. (lastIndex c, count c)) (db_routing d' (rrId tid reg)) =
                    Some (next_index (db_routing d (rrId tid reg)) (length (pool_of d tid reg)),
                          (case db_routing d (rrId tid reg) of None \<Rightarrow> 2 | Some c \<Rightarrow> count c + 2))))"
proof -
  have 3: "(case run_schedule [True, True, False, False, True, False]
              (d, Start tid reg, Start tid reg) of
         (d', c1, c2) \<Rightarrow>
           finished c1 \<and> finished c2 \<and> result_of c1 = result_of c2
           \<and> (pool_of d tid reg \<noteq> [] \<longrightarrow>
                result_of c1 = Some (pool_of d tid reg !
                   next_index (db_routing d (rrId tid reg)) (length (pool_of d tid reg)))
                \<and> map_option (\<lambda>c. (lastIndex c, count c)) (db_routing d' (rrId tid reg)) =
                    Some (next_index (db_routing d (rrId tid reg)) (length (pool_of d tid reg)),
                          (case db_routing d (rrId tid reg) of None \<Rightarrow> 2 | Some c \<Rightarrow> count c + 2))))"
    unfolding racing_same
    by (simp add: Let_def finished_def result_of_def at_index_def next_index_lt
          routing_write_cursor split: option.splits)
  show ?thesis
    using step_thrice[of d tid reg] sequential_differ[of d tid reg] 3 by (intro conjI impI) simp_all
qed

theorem cursor_read_then_write_witness:
  "distinct (pool_of store0 ''acme'' ''east'') \<and> 2 \<le> length (pool_of store0 ''acme'' ''east'')
   \<and> snd (pickOwner store0 ''acme'' ''east'')
        \<noteq> snd (pickOwner (fst (pickOwner store0 ''acme'' ''east'')) ''acme'' ''east'')
   \<and> pool_of store0 ''acme'' ''east'' \<noteq> []"
proof -
  have p: "pool_of store0 ''acme'' ''east'' = [alice, bob]"
    by (simp add: pool_of_def store0_def alice_def bob_def carol_def eligible_def)
  have ab: "alice \<noteq> bob" by (simp add: alice_def bob_def)
  have h: "distinct (pool_of store0 ''acme'' ''east'') \<and> 2 \<le> length (pool_of store0 ''acme'' ''east'')"
    using p ab by simp
  show ?thesis
    using cursor_read_then_write[of store0 "''acme''" "''east''"] h p by simp
qed

theorem cursor_race_counterexample:
  "run_schedule [True, True, False, False, True, False]
      (store0, Start ''acme'' ''east'', Start ''acme'' ''east'')
     = (write_cursor (write_cursor store0 ''acme'' ''east'' 0) ''acme'' ''east'' 0,
        Done (Some alice), Done (Some alice))
   \<and> pool_of store0 ''acme'' ''east'' = [alice, bob]
   \<and> \<not> (\<forall>sched d' c1 c2.
          run_schedule sched (store0, Start ''acme'' ''east'', Start ''acme'' ''east'') = (d', c1, c2)
          \<and> finished c1 \<and> finished c2 \<longrightarrow> result_of c1 \<noteq> result_of c2)"
proof -
  have p: "pool_of store0 ''acme'' ''east'' = [alice, bob]"
    by (simp add: pool_of_def store0_def alice_def bob_def carol_def eligible_def)
  have r: "db_routing store0 (rrId ''acme'' ''east'') = None"
    by (simp add: store0_def)
  have run: "run_schedule [True, True, False, False, True, False]
      (store0, Start ''acme'' ''east'', Start ''acme'' ''east'')
     = (write_cursor (write_cursor store0 ''acme'' ''east'' 0) ''acme'' ''east'' 0,
        Done (Some alice), Done (Some alice))"
    unfolding racing_same by (simp add: p r Let_def next_index_def at_index_def)
  have "\<not> (\<forall>sched d' c1 c2.
          run_schedule sched (store0, Start ''acme'' ''east'', Start ''acme'' ''east'') = (d', c1, c2)
          \<and> finished c1 \<and> finished c2 \<longrightarrow> result_of c1 \<noteq> result_of c2)"
  proof
    assume "\<forall>sched d' c1 c2.
          run_schedule sched (store0, Start ''acme'' ''east'', Start ''acme'' ''east'') = (d', c1, c2)
          \<and> finished c1 \<and> finished c2 \<longrightarrow> result_of c1 \<noteq> result_of c2"
    moreover have "finished (Done (Some alice))" by (simp add: finished_def)
    ultimately show False using run by blast
  qed
  then show ?thesis using run p by (intro conjI)
qed

section \<open>Properties of the import\<close>

lemma lower_examples:
  "toLowerCase L ''Verity'' = ''verity''"
  "toLowerCase L ''unknown'' = ''unknown''"
  "toLowerCase L (trim ''Example.EDU '') = ''example.edu''"
  "toLowerCase L (trim ''other.edu'') = ''other.edu''"
  "code_units ''acme'' = 4"
  "code_units ''Example University'' = 18"
  "code_units ''Other College'' = 13"
  by code_simp+

lemma good_valid: "validate_item E good_record = Inr good_parsed"
  by (simp add: validate_item_def good_record_def good_parsed_def lower_product_def fld_def
      ProspectSchema_parse_def ProspectSchema_fields_def z_string_def z_string_min_def
      z_string_trim_lower_def z_enum_def z_default_def z_optional_def products_def
      lower_examples)

lemma bad_invalid: "validate_item E bad_record = Inl (ValidationError [''product''])"
  by (simp add: validate_item_def bad_record_def lower_product_def fld_def
      ProspectSchema_parse_def ProspectSchema_fields_def ProspectSchema_issues_def
      z_string_def z_string_min_def z_int_range_def z_array_def z_string_or_number_def
      z_string_trim_lower_def z_enum_def z_default_def z_optional_def products_def
      lower_examples)

lemma keeps_documents_refl: "keeps_documents d d"
  by (simp add: keeps_documents_def)

lemma keeps_documents_trans:
  "keeps_documents d d1 \<Longrightarrow> keeps_documents d1 d2 \<Longrightarrow> keeps_documents d d2"
  by (simp add: keeps_documents_def)

lemma pickOwner_keeps: "keeps_documents d (fst (pickOwner d tid reg))"
  by (simp add: pickOwner_def Let_def write_cursor_def keeps_documents_def)

lemma assign_owner_keeps:
  assumes "assign_owner d p = (d', ou, on)"
  shows "keeps_documents d d'"
proof (cases "or_null (ownerUid p) = None")
  case True
  then have "d' = fst (pickOwner d (tenantId p) (region p))"
    using assms by (auto simp: assign_owner_def Let_def split: prod.splits option.splits)
  then show ?thesis by (simp add: pickOwner_keeps)
next
  case False
  then have "d' = d" using assms by (auto simp: assign_owner_def Let_def)
  then show ?thesis by (simp add: keeps_documents_refl)
qed

lemma process_item_Inl:
  "process_item E now c d r = (d', Inl e) \<Longrightarrow> d' = d \<and> validate_item E r = Inl e"
  by (auto simp: process_item_def split: sum.splits prod.splits)

lemma process_item_Inr:
  "process_item E now c d r = (d', Inr ws) \<Longrightarrow>
     \<exists>p ou on. validate_item E r = Inr p \<and> assign_owner d p = (d', ou, on)
        \<and> ws = writes_of E now c p ou on"
  by (auto simp: process_item_def split: sum.splits prod.splits)

lemma audit_writes_append: "audit_writes (xs @ ys) = audit_writes xs @ audit_writes ys"
  by (induction xs rule: audit_writes.induct) simp_all

lemma prospect_writes_append: "prospect_writes (xs @ ys) = prospect_writes xs @ prospect_writes ys"
  by (induction xs rule: prospect_writes.induct) simp_all

lemma audit_writes_children:
  "audit_writes (map (\<lambda>c. AddContact t i c ts) cs) = []"
  "audit_writes (map (\<lambda>s. AddSignal t i (f s) ts) ss) = []"
  by (induction cs, simp_all) (induction ss, simp_all)

lemma prospect_writes_children:
  "prospect_writes (map (\<lambda>c. AddContact t i c ts) cs) = []"
  "prospect_writes (map (\<lambda>s. AddSignal t i (f s) ts) ss) = []"
  by (induction cs, simp_all) (induction ss, simp_all)

lemma audit_writes_of:
  "audit_writes (writes_of E now c p ou on) = [audit_of now c (tenantId p) (prospect_id E p)]"
  by (simp add: writes_of_def Let_def prospect_id_def audit_writes_append audit_writes_children)

lemma prospect_writes_of:
  "prospect_writes (writes_of E now c p ou on) = [(tenantId p, prospect_id E p)]"
  by (simp add: writes_of_def Let_def prospect_id_def prospect_writes_append prospect_writes_children)

lemma import_loop_result:
  "import_loop E now c d b n items = (d', res) \<Longrightarrow>
     keeps_documents d d'
     \<and> (case res of
          Inl e \<Rightarrow> first_invalid E items = Some e
        | Inr (batch, cnt) \<Rightarrow>
            first_invalid E items = None \<and> cnt = n + length items
            \<and> (\<exists>ps. map (validate_item E) items = map Inr ps
                 \<and> audit_writes batch =
                     audit_writes b @ map (\<lambda>p. audit_of now c (tenantId p) (prospect_id E p)) ps
                 \<and> prospect_writes batch =
                     prospect_writes b @ map (\<lambda>p. (tenantId p, prospect_id E p)) ps))"
proof (induction items arbitrary: d b n)
  case Nil
  then show ?case by (auto simp: keeps_documents_refl)
next
  case (Cons r items)
  obtain d1 res1 where pi: "process_item E now c d r = (d1, res1)"
    by (cases "process_item E now c d r")
  show ?case
  proof (cases res1)
    case (Inl e)
    then have "d' = d1" "res = Inl e" using Cons.prems pi by simp_all
    moreover have "d1 = d" "validate_item E r = Inl e"
      using process_item_Inl pi Inl by blast+
    ultimately show ?thesis by (simp add: keeps_documents_refl)
  next
    case (Inr ws)
    then obtain p ou on where p: "validate_item E r = Inr p" "assign_owner d p = (d1, ou, on)"
        "ws = writes_of E now c p ou on"
      using process_item_Inr pi by blast
    have rest: "import_loop E now c d1 (b @ ws) (n + 1) items = (d', res)"
      using Cons.prems pi Inr by simp
    note IH = Cons.IH[OF rest]
    have k: "keeps_documents d d'"
      using assign_owner_keeps[OF p(2)] IH keeps_documents_trans by blast
    show ?thesis
    proof (cases res)
      case (Inl e)
      then show ?thesis using IH k p(1) by simp
    next
      case (Inr bc)
      obtain batch cnt where bc: "bc = (batch, cnt)" by (cases bc)
      from IH Inr bc obtain ps where ps: "first_invalid E items = None" "cnt = n + 1 + length items"
        "map (validate_item E) items = map Inr ps"
        "audit_writes batch = audit_writes (b @ ws) @ map (\<lambda>p. audit_of now c (tenantId p) (prospect_id E p)) ps"
        "prospect_writes batch = prospect_writes (b @ ws) @ map (\<lambda>p. (tenantId p, prospect_id E p)) ps"
        by auto
      have "map (validate_item E) (r # items) = map Inr (p # ps)"
        using p(1) ps(3) by simp
      moreover have "audit_writes batch =
          audit_writes b @ map (\<lambda>p. audit_of now c (tenantId p) (prospect_id E p)) (p # ps)"
        using ps(4) p(3) by (simp add: audit_writes_append audit_writes_of)
      moreover have "prospect_writes batch =
          prospect_writes b @ map (\<lambda>p. (tenantId p, prospect_id E p)) (p # ps)"
        using ps(5) p(3) by (simp add: prospect_writes_append prospect_writes_of)
      ultimately show ?thesis
        using k Inr bc ps(1,2) p(1) by (simp del: map_eq_conv list.map)
    qed
  qed
qed

lemma commit_audit: "db_audit (commit batch d) = db_audit d @ audit_writes batch"
  unfolding commit_def
  by (induction batch arbitrary: d rule: audit_writes.induct) simp_all

lemma commit_keeps_routing:
  "db_routing (commit batch d) = db_routing d \<and> db_roles (commit batch d) = db_roles d"
  unfolding commit_def
proof (induction batch arbitrary: d)
  case Nil
  then show ?case by simp
next
  case (Cons w ws)
  then show ?case by (cases w) simp_all
qed

lemma commit_prospect_present:
  "db_prospects (commit batch d) k \<noteq> None
     \<longleftrightarrow> db_prospects d k \<noteq> None \<or> k \<in> set (prospect_writes batch)"
  unfolding commit_def
proof (induction batch arbitrary: d)
  case Nil
  then show ?case by simp
next
  case (Cons w ws)
  then show ?case by (cases w) auto
qed

lemma fld_Cons_other: "k \<noteq> k' \<Longrightarrow> fld ((k', v) # r) k = fld r k"
  by (simp add: fld_def)

lemma parse_fields:
  assumes "ProspectSchema_parse L r = Inr p"
  shows "z_default 0 (z_int_range 0 100) (fld r ''score'') = Some (score p)"
    and "z_default ''research'' (z_enum stages) (fld r ''stage'') = Some (stage p)"
    and "z_optional (z_default ''new'' (z_enum statuses)) (fld r ''status'') = Some (status p)"
    and "z_enum products (fld r ''product'') = Some (product p)"
proof -
  have f: "ProspectSchema_fields L r = Some p"
    using assms by (simp add: ProspectSchema_parse_def split: option.splits)
  show "z_default 0 (z_int_range 0 100) (fld r ''score'') = Some (score p)"
    using f unfolding ProspectSchema_fields_def by (auto simp: bind_eq_Some_conv)
  show "z_default ''research'' (z_enum stages) (fld r ''stage'') = Some (stage p)"
    using f unfolding ProspectSchema_fields_def by (auto simp: bind_eq_Some_conv)
  show "z_optional (z_default ''new'' (z_enum statuses)) (fld r ''status'') = Some (status p)"
    using f unfolding ProspectSchema_fields_def by (auto simp: bind_eq_Some_conv)
  show "z_enum products (fld r ''product'') = Some (product p)"
    using f unfolding ProspectSchema_fields_def by (auto simp: bind_eq_Some_conv)
qed

lemma commit_Cons: "commit (w # ws) d = commit ws (apply_write d w)"
  by (simp add: commit_def)

lemma commit_no_prospect:
  "prospect_writes ws = [] \<Longrightarrow> db_prospects (commit ws d) = db_prospects d"
proof (induction ws arbitrary: d)
  case Nil
  then show ?case by (simp add: commit_def)
next
  case (Cons w ws)
  then show ?case by (cases w) (simp_all add: commit_Cons)
qed

lemma commit_writes_of:
  "db_prospects (commit (writes_of E now c p ou on) d) (tenantId p, prospect_id E p) =
     Some (set_merge (db_prospects d (tenantId p, prospect_id E p)) (payload_of E now p ou on))"
proof -
  let ?rest = "map (\<lambda>c. AddContact (tenantId p) (prospect_id E p) c (fromMillis now))
          (case contacts p of None \<Rightarrow> [] | Some cs \<Rightarrow> cs)
      @ map (\<lambda>s. AddSignal (tenantId p) (prospect_id E p) (signal_doc_of E s) (fromMillis now))
          (case signals p of None \<Rightarrow> [] | Some ss \<Rightarrow> ss)
      @ [AddAudit (audit_of now c (tenantId p) (prospect_id E p))]"
  have w: "writes_of E now c p ou on =
      SetProspect (tenantId p) (prospect_id E p) (payload_of E now p ou on) # ?rest"
    by (simp add: writes_of_def Let_def prospect_id_def)
  have "prospect_writes ?rest = []"
    by (simp add: prospect_writes_append prospect_writes_children)
  then show ?thesis
    unfolding w commit_Cons by (simp add: commit_no_prospect)
qed

lemma import_single:
  assumes "validate_item E r = Inr p" and "or_null a = Some c" and "assign_owner d p = (d1, ou, on)"
  shows "importProspects E now d a (Some (BodyObject r)) =
           (commit (writes_of E now c p ou on) d1, Inr 1)"
  using assms by (simp add: importProspects_def items_of_def process_item_def)

lemma importProspects_result:
  "snd (importProspects E now d a b) =
     (case or_null a of
        None \<Rightarrow> Inl AuthRequired
      | Some c \<Rightarrow>
          (case b of
             None \<Rightarrow> Inl NoData
           | Some bd \<Rightarrow>
               (case items_of E bd of
                  Inl e \<Rightarrow> Inl e
                | Inr items \<Rightarrow>
                    (case first_invalid E items of
                       Some e \<Rightarrow> Inl e
                     | None \<Rightarrow> Inr (length items)))))"
proof (cases "or_null a")
  case None
  then show ?thesis by (simp add: importProspects_def)
next
  case (Some c)
  note c = this
  show ?thesis
  proof (cases b)
    case None
    then show ?thesis using c by (simp add: importProspects_def)
  next
    case (Some bd)
    note bd = this
    show ?thesis
    proof (cases "items_of E bd")
      case (Inl e)
      then show ?thesis using c bd by (simp add: importProspects_def)
    next
      case (Inr items)
      obtain d1 res where l: "import_loop E now c d [] 0 items = (d1, res)"
        by (cases "import_loop E now c d [] 0 items")
      note R = import_loop_result[OF l]
      show ?thesis
      proof (cases res)
        case (Inl e)
        then show ?thesis using R c bd Inr l by (simp add: importProspects_def)
      next
        case (Inr bc)
        obtain batch cnt where "bc = (batch, cnt)" by (cases bc)
        then show ?thesis using R c bd \<open>items_of E bd = Inr items\<close> l Inr
          by (simp add: importProspects_def)
      qed
    qed
  qed
qed

lemma importProspects_fail_keeps:
  assumes "importProspects E now d a b = (d', Inl e)"
  shows "keeps_documents d d'"
proof (cases "or_null a")
  case None
  then show ?thesis using assms by (simp add: importProspects_def keeps_documents_refl)
next
  case (Some c)
  note c = this
  show ?thesis
  proof (cases b)
    case None
    then show ?thesis using assms c by (simp add: importProspects_def keeps_documents_refl)
  next
    case (Some bd)
    note bd = this
    show ?thesis
    proof (cases "items_of E bd")
      case (Inl e')
      then show ?thesis using assms c bd by (simp add: importProspects_def keeps_documents_refl)
    next
      case (Inr items)
      obtain d1 res where l: "import_loop E now c d [] 0 items = (d1, res)"
        by (cases "import_loop E now c d [] 0 items")
      note R = import_loop_result[OF l]
      show ?thesis
      proof (cases res)
        case (Inl e')
        then have "d' = d1" using assms c bd Inr l by (simp add: importProspects_def)
        then show ?thesis using R by simp
      next
        case (Inr bc)
        obtain batch cnt where "bc = (batch, cnt)" by (cases bc)
        then show ?thesis using assms c bd \<open>items_of E bd = Inr items\<close> l Inr
          by (simp add: importProspects_def)
      qed
    qed
  qed
qed

lemma import_loop_fail_prefix:
  "import_loop E now c d b n items = (d', Inl e) \<Longrightarrow>
     \<exists>k<length items. validate_item E (items ! k) = Inl e
        \<and> first_invalid E (take k items) = None
        \<and> fst (import_loop E now c d b n (take k items)) = d'"
proof (induction items arbitrary: d b n)
  case Nil
  then show ?case by simp
next
  case (Cons r items)
  obtain d1 res1 where pi: "process_item E now c d r = (d1, res1)"
    by (cases "process_item E now c d r")
  show ?case
  proof (cases res1)
    case (Inl e1)
    then have "d' = d1" "e = e1" using Cons.prems pi by simp_all
    moreover have "d1 = d" "validate_item E r = Inl e1"
      using process_item_Inl pi Inl by blast+
    ultimately have "validate_item E ((r # items) ! 0) = Inl e
        \<and> first_invalid E (take 0 (r # items)) = None
        \<and> fst (import_loop E now c d b n (take 0 (r # items))) = d'"
      by simp
    then show ?thesis by (intro exI[of _ 0]) simp
  next
    case (Inr ws)
    then obtain p ou on where p: "validate_item E r = Inr p"
      using process_item_Inr pi by blast
    have rest: "import_loop E now c d1 (b @ ws) (n + 1) items = (d', Inl e)"
      using Cons.prems pi Inr by simp
    from Cons.IH[OF rest] obtain k where k: "k < length items"
        "validate_item E (items ! k) = Inl e" "first_invalid E (take k items) = None"
        "fst (import_loop E now c d1 (b @ ws) (n + 1) (take k items)) = d'"
      by blast
    have "validate_item E ((r # items) ! Suc k) = Inl e
        \<and> first_invalid E (take (Suc k) (r # items)) = None
        \<and> fst (import_loop E now c d b n (take (Suc k) (r # items))) = d'"
      using k p pi Inr by simp
    then show ?thesis using k(1) by (intro exI[of _ "Suc k"]) simp
  qed
qed

lemma good_id: "prospect_id E good_parsed = ''example.edu_verity''"
  unfolding prospect_id_def good_parsed_def by simp code_simp

lemma pool_acme_any: "pool_of (store0\<lparr>db_prospects := m\<rparr>) ''acme'' [] = [alice, bob]"
  by (simp add: pool_of_def store0_def alice_def bob_def carol_def eligible_def)

lemma pick_acme_any:
  "pickOwner (store0\<lparr>db_prospects := m\<rparr>) ''acme'' [] =
     (write_cursor (store0\<lparr>db_prospects := m\<rparr>) ''acme'' [] 0, Some alice)"
proof -
  have r: "db_routing store0 (rrId ''acme'' []) = None"
    by (simp add: store0_def)
  have ne: "pool_of (store0\<lparr>db_prospects := m\<rparr>) ''acme'' [] \<noteq> []"
    by (simp add: pool_acme_any)
  show ?thesis
    using pickOwner_nonempty[OF ne] by (simp add: pool_acme_any r next_index_def)
qed

lemma assign_good:
  "assign_owner (store0\<lparr>db_prospects := m\<rparr>) good_parsed =
     (write_cursor (store0\<lparr>db_prospects := m\<rparr>) ''acme'' [] 0, Some ''u_alice'', Some ''Alice'')"
  using pick_acme_any[of m]
  by (simp add: assign_owner_def Let_def or_null_def good_parsed_def owner_name_def or_else_def
        alice_def)

lemma store0_self: "store0\<lparr>db_prospects := db_prospects store0\<rparr> = store0"
  by simp

lemma failing_import_run:
  "importProspects env0 0 store0 (Some ''u_root'') (Some (BodyArray [good_record, bad_record]))
     = (write_cursor store0 ''acme'' [] 0, Inl (ValidationError [''product'']))"
  using assign_good[of "db_prospects store0"]
  by (simp add: importProspects_def items_of_def or_null_def process_item_def good_valid
        bad_invalid)

text \<open>
  Claim C1, as the code has it. A call that fails, on a record that does not validate or
  earlier, writes no prospect, contact, signal or audit document, also none for the
  records before the failing one: the batch is never committed. The rotation cursor is
  written by \<open>pickOwner\<close> at once and not through the batch, so the store after a failed
  call is the store after the loop has run over the records before the first invalid one,
  cursor writes included.
\<close>

theorem failed_import_keeps_documents:
  "(importProspects E now d a b = (d', Inl e) \<longrightarrow>
      db_prospects d' = db_prospects d \<and> db_contacts d' = db_contacts d
      \<and> db_signals d' = db_signals d \<and> db_audit d' = db_audit d
      \<and> db_roles d' = db_roles d)
   \<and> (or_null a = Some c
        \<and> importProspects E now d a (Some (BodyArray items)) = (d', Inl e) \<longrightarrow>
      (\<exists>k<length items. validate_item E (items ! k) = Inl e
          \<and> first_invalid E (take k items) = None
          \<and> d' = fst (import_loop E now c d [] 0 (take k items))))"
proof -
  have A: "importProspects E now d a b = (d', Inl e) \<longrightarrow>
      db_prospects d' = db_prospects d \<and> db_contacts d' = db_contacts d
      \<and> db_signals d' = db_signals d \<and> db_audit d' = db_audit d
      \<and> db_roles d' = db_roles d"
  proof
    assume "importProspects E now d a b = (d', Inl e)"
    then have "keeps_documents d d'" by (rule importProspects_fail_keeps)
    then show "db_prospects d' = db_prospects d \<and> db_contacts d' = db_contacts d
        \<and> db_signals d' = db_signals d \<and> db_audit d' = db_audit d
        \<and> db_roles d' = db_roles d"
      by (simp add: keeps_documents_def)
  qed
  have B: "or_null a = Some c
        \<and> importProspects E now d a (Some (BodyArray items)) = (d', Inl e) \<longrightarrow>
      (\<exists>k<length items. validate_item E (items ! k) = Inl e
          \<and> first_invalid E (take k items) = None
          \<and> d' = fst (import_loop E now c d [] 0 (take k items)))"
  proof
    assume h: "or_null a = Some c
          \<and> importProspects E now d a (Some (BodyArray items)) = (d', Inl e)"
    obtain d1 res where l: "import_loop E now c d [] 0 items = (d1, res)"
      by (cases "import_loop E now c d [] 0 items")
    have "res = Inl e \<and> d1 = d'"
      using h l by (cases res) (auto simp: importProspects_def items_of_def)
    then have "import_loop E now c d [] 0 items = (d', Inl e)" using l by simp
    from import_loop_fail_prefix[OF this]
    show "\<exists>k<length items. validate_item E (items ! k) = Inl e
            \<and> first_invalid E (take k items) = None
            \<and> d' = fst (import_loop E now c d [] 0 (take k items))"
      by blast
  qed
  show ?thesis using A B by (rule conjI)
qed

theorem failed_import_keeps_documents_witness:
  "or_null (Some ''u_root'') = Some ''u_root''
   \<and> importProspects env0 0 store0 (Some ''u_root'') (Some (BodyArray [good_record, bad_record]))
       = (write_cursor store0 ''acme'' [] 0, Inl (ValidationError [''product'']))
   \<and> db_prospects (write_cursor store0 ''acme'' [] 0) = db_prospects store0
   \<and> db_audit (write_cursor store0 ''acme'' [] 0) = db_audit store0
   \<and> (\<exists>k<length [good_record, bad_record].
         validate_item env0 ([good_record, bad_record] ! k) = Inl (ValidationError [''product''])
         \<and> write_cursor store0 ''acme'' [] 0
             = fst (import_loop env0 0 ''u_root'' store0 [] 0 (take k [good_record, bad_record])))"
proof -
  have a: "or_null (Some ''u_root'') = Some ''u_root''" by (simp add: or_null_def)
  note t = failed_import_keeps_documents[where E = env0 and now = 0 and d = store0
      and a = "Some ''u_root''" and b = "Some (BodyArray [good_record, bad_record])"
      and d' = "write_cursor store0 ''acme'' [] 0" and e = "ValidationError [''product'']"
      and c = "''u_root''" and items = "[good_record, bad_record]"]
  show ?thesis using t a failing_import_run by blast
qed

theorem failed_import_cursor_counterexample:
  "importProspects env0 0 store0 (Some ''u_root'') (Some (BodyArray [good_record, bad_record]))
       = (write_cursor store0 ''acme'' [] 0, Inl (ValidationError [''product'']))
   \<and> validate_item env0 bad_record = Inl (ValidationError [''product''])
   \<and> db_routing store0 (rrId ''acme'' []) = None
   \<and> map_option (\<lambda>c. (lastIndex c, count c))
        (db_routing (write_cursor store0 ''acme'' [] 0) (rrId ''acme'' [])) = Some (0, 1)
   \<and> fst (importProspects env0 0 store0 (Some ''u_root'')
             (Some (BodyArray [good_record, bad_record]))) \<noteq> store0"
proof -
  have r0: "db_routing store0 (rrId ''acme'' []) = None" by (simp add: store0_def)
  have r1: "map_option (\<lambda>c. (lastIndex c, count c))
        (db_routing (write_cursor store0 ''acme'' [] 0) (rrId ''acme'' [])) = Some (0, 1)"
    by (simp add: routing_write_cursor r0)
  have "write_cursor store0 ''acme'' [] 0 \<noteq> store0"
  proof
    assume "write_cursor store0 ''acme'' [] 0 = store0"
    then have "db_routing (write_cursor store0 ''acme'' [] 0) (rrId ''acme'' [])
        = db_routing store0 (rrId ''acme'' [])" by simp
    then show False using r0 r1 by simp
  qed
  then show ?thesis using failing_import_run bad_invalid r0 r1 by simp
qed

lemma validate_item_fields:
  assumes "validate_item E r = Inr p"
  shows "z_default 0 (z_int_range 0 100) (fld r ''score'') = Some (score p)"
    and "z_default ''research'' (z_enum stages) (fld r ''stage'') = Some (stage p)"
    and "z_optional (z_default ''new'' (z_enum statuses)) (fld r ''status'') = Some (status p)"
proof -
  obtain lowered where l: "lower_product (lowerNonAscii E) (fld r ''product'') = Some lowered"
      "ProspectSchema_parse (lowerNonAscii E) ((''product'', JStr lowered) # r) = Inr p"
    using assms by (auto simp: validate_item_def split: option.splits)
  show "z_default 0 (z_int_range 0 100) (fld r ''score'') = Some (score p)"
    using parse_fields(1)[OF l(2)] by (simp add: fld_Cons_other)
  show "z_default ''research'' (z_enum stages) (fld r ''stage'') = Some (stage p)"
    using parse_fields(2)[OF l(2)] by (simp add: fld_Cons_other)
  show "z_optional (z_default ''new'' (z_enum statuses)) (fld r ''status'') = Some (status p)"
    using parse_fields(3)[OF l(2)] by (simp add: fld_Cons_other)
qed

lemma importProspects_Inr_shape:
  assumes "importProspects E now d a (Some b) = (d', Inr n)"
  obtains c items d1 batch where "or_null a = Some c" "items_of E b = Inr items"
    "import_loop E now c d [] 0 items = (d1, Inr (batch, n))" "d' = commit batch d1"
proof (cases "or_null a")
  case None
  then show ?thesis using assms by (simp add: importProspects_def)
next
  case (Some c)
  note c = this
  show ?thesis
  proof (cases "items_of E b")
    case (Inl e)
    then show ?thesis using assms c by (simp add: importProspects_def)
  next
    case (Inr items)
    note items = this
    obtain d1 res where l: "import_loop E now c d [] 0 items = (d1, res)"
      by (cases "import_loop E now c d [] 0 items")
    show ?thesis
    proof (cases res)
      case (Inl e)
      then show ?thesis using assms c items l by (simp add: importProspects_def)
    next
      case (Inr bc)
      obtain batch cnt where bc: "bc = (batch, cnt)" by (cases bc)
      have "d' = commit batch d1 \<and> cnt = n"
        using assms c items l Inr bc by (simp add: importProspects_def)
      then show ?thesis using that[of c items d1 batch] c items l Inr bc by simp
    qed
  qed
qed

lemma commit_snoc: "commit (ws @ [w]) d = apply_write (commit ws d) w"
  by (simp add: commit_def)

lemma payloads_for_append:
  "payloads_for k (xs @ ys) = payloads_for k xs @ payloads_for k ys"
  by (induction k xs rule: payloads_for.induct) simp_all

lemma payloads_for_children:
  "payloads_for k (map (\<lambda>c. AddContact t i c ts) cs) = []"
  "payloads_for k (map (\<lambda>s. AddSignal t i (f s) ts) ss) = []"
  by (induction cs, simp_all) (induction ss, simp_all)

lemma payloads_for_writes_of:
  "payloads_for k (writes_of E now c p ou on) =
     (if k = (tenantId p, prospect_id E p) then [payload_of E now p ou on] else [])"
  by (simp add: writes_of_def Let_def prospect_id_def payloads_for_append payloads_for_children)

lemma commit_prospects:
  "db_prospects (commit batch d) k =
     (if payloads_for k batch = [] then db_prospects d k
      else Some \<lparr>doc_fields = last (payloads_for k batch),
                  doc_other = (case db_prospects d k of None \<Rightarrow> [] | Some old \<Rightarrow> doc_other old)\<rparr>)"
proof (induction batch rule: rev_induct)
  case Nil
  then show ?case by (simp add: commit_def)
next
  case (snoc w ws)
  show ?case
  proof (cases w)
    case (SetProspect t i f)
    then show ?thesis
      using snoc by (auto simp: commit_snoc payloads_for_append set_merge_def split: option.splits if_splits)
  next
    case (AddContact t i c ts)
    then show ?thesis using snoc by (simp add: commit_snoc payloads_for_append)
  next
    case (AddSignal t i s ts)
    then show ?thesis using snoc by (simp add: commit_snoc payloads_for_append)
  next
    case (AddAudit a)
    then show ?thesis using snoc by (simp add: commit_snoc payloads_for_append)
  qed
qed

lemma pool_of_roles: "db_roles d' = db_roles d \<Longrightarrow> pool_of d' t r = pool_of d t r"
  by (simp add: pool_of_def)

lemma assign_owner_unassigned:
  "or_null (ownerUid p) = None \<Longrightarrow> pool_of d (tenantId p) (region p) = [] \<Longrightarrow>
     assign_owner d p = (d, None, or_null (ownerName p))"
  by (simp add: assign_owner_def Let_def pickOwner_empty)

lemma assign_owner_written:
  assumes "assign_owner dp p = (dp', w)" and "db_roles dp = db_roles d"
  shows "owner_written d p w"
proof -
  have pl: "pool_of dp (tenantId p) (region p) = pool_of d (tenantId p) (region p)"
    using assms(2) by (rule pool_of_roles)
  show ?thesis
  proof (cases "or_null (ownerUid p) = None")
    case False
    then show ?thesis using assms(1) by (auto simp: assign_owner_def Let_def owner_written_def)
  next
    case True
    note un = this
    show ?thesis
    proof (cases "pool_of d (tenantId p) (region p) = []")
      case True
      then have "assign_owner dp p = (dp, None, or_null (ownerName p))"
        using un pl by (simp add: assign_owner_unassigned)
      then show ?thesis using assms(1) un True by (simp add: owner_written_def)
    next
      case False
      then have ne: "pool_of dp (tenantId p) (region p) \<noteq> []" using pl by simp
      obtain d1 x where pk: "pickOwner dp (tenantId p) (region p) = (d1, Some x)"
        using pickOwner_nonempty[OF ne] by simp
      have "x \<in> set (pool_of d (tenantId p) (region p))"
        using pickOwner_in_pool[OF pk] pl by simp
      moreover have "w = (Some (uid x), Some (owner_name x))"
        using assms(1) un pk by (simp add: assign_owner_def Let_def)
      ultimately show ?thesis using un False by (auto simp: owner_written_def)
    qed
  qed
qed

lemma import_loop_batch:
  "import_loop E now c d b n items = (d', Inr (batch, cnt)) \<Longrightarrow> db_roles d = db_roles d0 \<Longrightarrow>
   \<exists>ps os. map (validate_item E) items = map Inr ps
     \<and> list_all2 (owner_written d0) ps os
     \<and> batch = b @ concat (map (\<lambda>(p, ou, on). writes_of E now c p ou on) (zip ps os))"
proof (induction items arbitrary: d b n)
  case Nil
  then have "batch = b" by simp
  then show ?case by (intro exI[of _ "[]"]) simp
next
  case (Cons r items)
  obtain d1 res1 where pi: "process_item E now c d r = (d1, res1)"
    by (cases "process_item E now c d r")
  show ?case
  proof (cases res1)
    case (Inl e)
    then show ?thesis using Cons.prems pi by simp
  next
    case (Inr ws)
    then obtain p ou on where p: "validate_item E r = Inr p" "assign_owner d p = (d1, ou, on)"
        "ws = writes_of E now c p ou on"
      using process_item_Inr pi by blast
    have rest: "import_loop E now c d1 (b @ ws) (n + 1) items = (d', Inr (batch, cnt))"
      using Cons.prems pi Inr by simp
    have roles: "db_roles d1 = db_roles d0"
      using assign_owner_keeps[OF p(2)] Cons.prems(2) by (simp add: keeps_documents_def)
    from Cons.IH[OF rest roles] obtain ps os where
      ih: "map (validate_item E) items = map Inr ps" "list_all2 (owner_written d0) ps os"
          "batch = (b @ ws) @ concat (map (\<lambda>(p, ou, on). writes_of E now c p ou on) (zip ps os))"
      by blast
    have hd: "owner_written d0 p (ou, on)"
      using assign_owner_written[OF p(2) Cons.prems(2)] .
    have 1: "map (validate_item E) (r # items) = map Inr (p # ps)" using p(1) ih(1) by simp
    have 2: "list_all2 (owner_written d0) (p # ps) ((ou, on) # os)" using hd ih(2) by simp
    have 3: "batch = b @ concat (map (\<lambda>(p, ou, on). writes_of E now c p ou on)
                 (zip (p # ps) ((ou, on) # os)))"
      using ih(3) p(3) by simp
    show ?thesis
      using 1 2 3 by (intro exI[of _ "p # ps"] exI[of _ "(ou, on) # os"] conjI)
  qed
qed

lemma payloads_concat:
  "payloads_for k (concat (map (\<lambda>(p, ou, on). writes_of E now c p ou on) zs)) =
     payloads_of_records E now k zs"
  unfolding payloads_of_records_def
  by (induction zs) (auto simp: payloads_for_append payloads_for_writes_of)

lemma import_stores:
  assumes "importProspects E now d a (Some b) = (d', Inr n)"
  shows "\<exists>items ps os.
      items_of E b = Inr items \<and> n = length items
      \<and> map (validate_item E) items = map Inr ps
      \<and> list_all2 (owner_written d) ps os
      \<and> (\<forall>k. db_prospects d' k =
            (if payloads_of_records E now k (zip ps os) = [] then db_prospects d k
             else Some \<lparr>doc_fields = last (payloads_of_records E now k (zip ps os)),
                        doc_other = (case db_prospects d k of
                                       None \<Rightarrow> [] | Some old \<Rightarrow> doc_other old)\<rparr>))"
proof -
  obtain c items d1 batch where
    s: "or_null a = Some c" "items_of E b = Inr items"
       "import_loop E now c d [] 0 items = (d1, Inr (batch, n))" "d' = commit batch d1"
    by (rule importProspects_Inr_shape[OF assms])
  have k: "db_prospects d1 = db_prospects d" and n: "n = length items"
    using import_loop_result[OF s(3)] by (simp_all add: keeps_documents_def)
  from import_loop_batch[OF s(3) refl] obtain ps os where
    l: "map (validate_item E) items = map Inr ps" "list_all2 (owner_written d) ps os"
       "batch = concat (map (\<lambda>(p, ou, on). writes_of E now c p ou on) (zip ps os))"
    by auto
  have st: "\<forall>k. db_prospects d' k =
            (if payloads_of_records E now k (zip ps os) = [] then db_prospects d k
             else Some \<lparr>doc_fields = last (payloads_of_records E now k (zip ps os)),
                        doc_other = (case db_prospects d k of
                                       None \<Rightarrow> [] | Some old \<Rightarrow> doc_other old)\<rparr>)"
    unfolding s(4) commit_prospects l(3) payloads_concat k by simp
  show ?thesis
    using s(2) n l(1,2) st by (intro exI[of _ items] exI[of _ ps] exI[of _ os] conjI)
qed

lemma import_succeeds:
  "or_null a = Some c \<Longrightarrow> items_of E b = Inr items \<Longrightarrow> first_invalid E items = None \<Longrightarrow>
     snd (importProspects E now d a (Some b)) = Inr (length items)"
  using importProspects_result[of E now d a "Some b"] by simp

text \<open>
  Claim C2, as the code has it. The prospect write is a merge whose payload carries every
  field of the schema. After a call that succeeds, whatever its body (one record, an array
  or delimited text), every prospect document holds exactly the payload of the last record
  of the call with its tenant and id, built from that record and the owner it was given,
  and only the fields outside the payload keep their stored value; the other documents are
  as before. A call whose records all validate succeeds. A field the input omits is
  written with its default: score 0, stage \<open>research\<close>, status \<open>new\<close>.
\<close>

theorem upsert_overwrites_payload_fields:
  "(importProspects E now d a (Some b) = (d', Inr n) \<longrightarrow>
      (\<exists>items ps os.
          items_of E b = Inr items \<and> n = length items
          \<and> map (validate_item E) items = map Inr ps
          \<and> list_all2 (owner_written d) ps os
          \<and> (\<forall>k. db_prospects d' k =
                (if payloads_of_records E now k (zip ps os) = [] then db_prospects d k
                 else Some \<lparr>doc_fields = last (payloads_of_records E now k (zip ps os)),
                            doc_other = (case db_prospects d k of
                                           None \<Rightarrow> [] | Some old \<Rightarrow> doc_other old)\<rparr>))))
   \<and> (or_null a = Some c \<and> items_of E b = Inr items \<and> first_invalid E items = None \<longrightarrow>
        snd (importProspects E now d a (Some b)) = Inr (length items))
   \<and> (validate_item E r = Inr p \<and> fld r ''score'' = JUndefined \<longrightarrow>
        p_score (payload_of E now p ou on) = 0)
   \<and> (validate_item E r = Inr p \<and> fld r ''stage'' = JUndefined \<longrightarrow>
        p_stage (payload_of E now p ou on) = ''research'')
   \<and> (validate_item E r = Inr p \<and> fld r ''status'' = JUndefined \<longrightarrow>
        p_status (payload_of E now p ou on) = ''new'')"
proof -
  have 1: "importProspects E now d a (Some b) = (d', Inr n) \<longrightarrow>
      (\<exists>items ps os.
          items_of E b = Inr items \<and> n = length items
          \<and> map (validate_item E) items = map Inr ps
          \<and> list_all2 (owner_written d) ps os
          \<and> (\<forall>k. db_prospects d' k =
                (if payloads_of_records E now k (zip ps os) = [] then db_prospects d k
                 else Some \<lparr>doc_fields = last (payloads_of_records E now k (zip ps os)),
                            doc_other = (case db_prospects d k of
                                           None \<Rightarrow> [] | Some old \<Rightarrow> doc_other old)\<rparr>)))"
    using import_stores[of E now d a b d' n] by blast
  have 2: "or_null a = Some c \<and> items_of E b = Inr items \<and> first_invalid E items = None \<longrightarrow>
        snd (importProspects E now d a (Some b)) = Inr (length items)"
    using import_succeeds[of a c E b items now d] by blast
  have 3: "validate_item E r = Inr p \<and> fld r ''score'' = JUndefined \<longrightarrow>
        p_score (payload_of E now p ou on) = 0"
    using validate_item_fields(1)[of E r p] by (auto simp: payload_of_def z_default_def)
  have 4: "validate_item E r = Inr p \<and> fld r ''stage'' = JUndefined \<longrightarrow>
        p_stage (payload_of E now p ou on) = ''research''"
    using validate_item_fields(2)[of E r p] by (auto simp: payload_of_def z_default_def)
  have 5: "validate_item E r = Inr p \<and> fld r ''status'' = JUndefined \<longrightarrow>
        p_status (payload_of E now p ou on) = ''new''"
    using validate_item_fields(3)[of E r p]
    by (auto simp: payload_of_def z_optional_def or_else_def)
  show ?thesis using 1 2 3 4 5 by (intro conjI)
qed



lemma good_import_run:
  "importProspects env0 0 (store0\<lparr>db_prospects := m\<rparr>) (Some ''u_root'') (Some (BodyObject good_record))
     = (commit (writes_of env0 0 ''u_root'' good_parsed (Some ''u_alice'') (Some ''Alice''))
          (write_cursor (store0\<lparr>db_prospects := m\<rparr>) ''acme'' [] 0), Inr 1)"
  using import_single[OF good_valid _ assign_good[of m], of "Some ''u_root''" "''u_root''" env0 0]
  by (simp add: or_null_def)

lemma map_Inr_two: "[Inr x, Inr y] = map Inr ps \<Longrightarrow> ps = [x, y]"
  by (cases ps; simp; cases "tl ps"; auto)

lemma list_all2_two: "list_all2 P [x, y] os \<Longrightarrow> \<exists>v w. os = [v, w] \<and> P x v \<and> P y w"
  by (auto simp: list_all2_Cons1)

lemma twice_good_succeeds:
  "importProspects env0 0 store2 (Some ''u_root'') (Some (BodyArray [good_record, good_record]))
     = (fst (importProspects env0 0 store2 (Some ''u_root'')
               (Some (BodyArray [good_record, good_record]))), Inr 2)"
proof -
  have "snd (importProspects env0 0 store2 (Some ''u_root'')
               (Some (BodyArray [good_record, good_record]))) = Inr 2"
    using import_succeeds[of "Some ''u_root''" "''u_root''" env0
        "BodyArray [good_record, good_record]" "[good_record, good_record]" 0 store2]
    by (simp add: or_null_def items_of_def good_valid)
  then show ?thesis by (metis prod.collapse)
qed

theorem upsert_overwrites_payload_fields_witness:
  "importProspects env0 0 store2 (Some ''u_root'') (Some (BodyArray [good_record, good_record]))
     = (fst (importProspects env0 0 store2 (Some ''u_root'')
               (Some (BodyArray [good_record, good_record]))), Inr 2)
   \<and> validate_item env0 good_record = Inr good_parsed
   \<and> fld good_record ''score'' = JUndefined
   \<and> fld good_record ''stage'' = JUndefined
   \<and> fld good_record ''status'' = JUndefined
   \<and> p_score (payload_of env0 0 good_parsed (Some ''u_alice'') (Some ''Alice'')) = 0
   \<and> p_stage (payload_of env0 0 good_parsed (Some ''u_alice'') (Some ''Alice'')) = ''research''
   \<and> p_status (payload_of env0 0 good_parsed (Some ''u_alice'') (Some ''Alice'')) = ''new''
   \<and> (\<exists>ou on. db_prospects
          (fst (importProspects env0 0 store2 (Some ''u_root'')
                  (Some (BodyArray [good_record, good_record]))))
          (''acme'', ''example.edu_verity'')
        = Some \<lparr>doc_fields = payload_of env0 0 good_parsed ou on,
                doc_other = [(''notes'', JStr ''call back'')]\<rparr>)"
proof -
  let ?b = "BodyArray [good_record, good_record]"
  let ?d' = "fst (importProspects env0 0 store2 (Some ''u_root'') (Some ?b))"
  have u: "fld good_record ''score'' = JUndefined" "fld good_record ''stage'' = JUndefined"
      "fld good_record ''status'' = JUndefined"
    by (simp_all add: fld_def good_record_def)
  note t = upsert_overwrites_payload_fields[where r = good_record and p = good_parsed
      and a = "Some ''u_root''" and d = store2 and E = env0 and now = 0 and b = ?b
      and d' = ?d' and n = 2 and ou = "Some ''u_alice''" and on = "Some ''Alice''"]
  have d3: "p_score (payload_of env0 0 good_parsed (Some ''u_alice'') (Some ''Alice'')) = 0"
    using t good_valid u(1) by blast
  have d4: "p_stage (payload_of env0 0 good_parsed (Some ''u_alice'') (Some ''Alice'')) = ''research''"
    using t good_valid u(2) by blast
  have d5: "p_status (payload_of env0 0 good_parsed (Some ''u_alice'') (Some ''Alice'')) = ''new''"
    using t good_valid u(3) by blast
  from t twice_good_succeeds obtain items ps os where
    s: "items_of env0 ?b = Inr items" "map (validate_item env0) items = map Inr ps"
       "list_all2 (owner_written store2) ps os"
       "\<forall>k. db_prospects ?d' k =
                (if payloads_of_records env0 0 k (zip ps os) = [] then db_prospects store2 k
                 else Some \<lparr>doc_fields = last (payloads_of_records env0 0 k (zip ps os)),
                            doc_other = (case db_prospects store2 k of
                                           None \<Rightarrow> [] | Some old \<Rightarrow> doc_other old)\<rparr>)"
    by blast
  have items: "items = [good_record, good_record]" using s(1) by (simp add: items_of_def)
  have ps: "ps = [good_parsed, good_parsed]"
    using s(2) unfolding items by (simp add: good_valid map_Inr_two)
  obtain v w where os: "os = [v, w]"
    using list_all2_two[OF s(3)[unfolded ps]] by blast
  obtain ou on where w: "w = (ou, on)" by (cases w)
  have tid: "tenantId good_parsed = ''acme''" by (simp add: good_parsed_def)
  have pl: "payloads_of_records env0 0 (''acme'', ''example.edu_verity'') (zip ps os)
      = [payload_of env0 0 good_parsed (fst v) (snd v), payload_of env0 0 good_parsed ou on]"
    unfolding ps os w payloads_of_records_def by (simp add: good_id tid split_beta)
  have old: "db_prospects store2 (''acme'', ''example.edu_verity'') = Some old_doc"
    by (simp add: store2_def)
  have "db_prospects ?d' (''acme'', ''example.edu_verity'')
        = Some \<lparr>doc_fields = payload_of env0 0 good_parsed ou on,
                doc_other = [(''notes'', JStr ''call back'')]\<rparr>"
    using spec[OF s(4), of "(''acme'', ''example.edu_verity'')"]
    by (simp add: pl old old_doc_def)
  then have 9: "\<exists>ou on. db_prospects ?d' (''acme'', ''example.edu_verity'')
        = Some \<lparr>doc_fields = payload_of env0 0 good_parsed ou on,
                doc_other = [(''notes'', JStr ''call back'')]\<rparr>"
    by blast
  show ?thesis using twice_good_succeeds good_valid u d3 d4 d5 9 by (intro conjI)
qed

theorem upsert_resets_omitted_counterexample:
  "fld good_record ''score'' = JUndefined \<and> fld good_record ''stage'' = JUndefined
   \<and> fld good_record ''status'' = JUndefined
   \<and> map_option (\<lambda>x. (p_score (doc_fields x), p_stage (doc_fields x), p_status (doc_fields x)))
        (db_prospects store2 (''acme'', ''example.edu_verity'')) = Some (82, ''hold'', ''working'')
   \<and> map_option (\<lambda>x. (p_score (doc_fields x), p_stage (doc_fields x), p_status (doc_fields x)))
        (db_prospects
           (fst (importProspects env0 0 store2 (Some ''u_root'') (Some (BodyObject good_record))))
           (''acme'', ''example.edu_verity'')) = Some (0, ''research'', ''new'')"
proof -
  have u: "fld good_record ''score'' = JUndefined" "fld good_record ''stage'' = JUndefined"
      "fld good_record ''status'' = JUndefined"
    by (simp_all add: fld_def good_record_def)
  have before: "map_option (\<lambda>x. (p_score (doc_fields x), p_stage (doc_fields x), p_status (doc_fields x)))
        (db_prospects store2 (''acme'', ''example.edu_verity'')) = Some (82, ''hold'', ''working'')"
    by (simp add: store2_def old_doc_def)
  have t: "tenantId good_parsed = ''acme''" by (simp add: good_parsed_def)
  have run: "fst (importProspects env0 0 store2 (Some ''u_root'') (Some (BodyObject good_record)))
      = commit (writes_of env0 0 ''u_root'' good_parsed (Some ''u_alice'') (Some ''Alice''))
          (write_cursor store2 ''acme'' [] 0)"
    unfolding store2_def by (simp add: good_import_run)
  have "db_prospects (commit (writes_of env0 0 ''u_root'' good_parsed (Some ''u_alice'') (Some ''Alice''))
          (write_cursor store2 ''acme'' [] 0)) (tenantId good_parsed, prospect_id env0 good_parsed)
      = Some (set_merge (db_prospects (write_cursor store2 ''acme'' [] 0) (tenantId good_parsed, prospect_id env0 good_parsed))
               (payload_of env0 0 good_parsed (Some ''u_alice'') (Some ''Alice'')))"
    by (rule commit_writes_of)
  then have after: "map_option (\<lambda>x. (p_score (doc_fields x), p_stage (doc_fields x), p_status (doc_fields x)))
        (db_prospects (commit (writes_of env0 0 ''u_root'' good_parsed (Some ''u_alice'') (Some ''Alice''))
          (write_cursor store2 ''acme'' [] 0)) (''acme'', ''example.edu_verity''))
        = Some (0, ''research'', ''new'')"
    unfolding t good_id
    by (simp add: set_merge_def payload_of_def good_parsed_def or_else_def)
  show ?thesis using u before after run by simp
qed

text \<open>
  Claim C5. A call that returns has staged, for every input record and in their order, one
  prospect write and one audit record of type \<open>import\<close> that names the record's
  prospect id and the caller. Both are elements of the one batch; until the commit
  neither the prospects nor the audit records of the store have changed, and the commit
  applies the whole batch, after which every audit record is appended and every
  prospect of the batch exists. A call that fails has applied neither.
\<close>

theorem import_audit_per_record:
  "(importProspects E now d a (Some b) = (d', Inr n) \<longrightarrow>
     (\<exists>c items ps d1 batch.
        or_null a = Some c \<and> items_of E b = Inr items \<and> n = length items
        \<and> map (validate_item E) items = map Inr ps
        \<and> import_loop E now c d [] 0 items = (d1, Inr (batch, n))
        \<and> db_prospects d1 = db_prospects d \<and> db_contacts d1 = db_contacts d
        \<and> db_signals d1 = db_signals d \<and> db_audit d1 = db_audit d
        \<and> d' = commit batch d1
        \<and> audit_writes batch =
             map (\<lambda>p. \<lparr>a_type = ''import'', a_tenantId = tenantId p,
                        a_prospectId = normalizeId (lowerNonAscii E) (domain p) (product p), a_by = c,
                        a_at = fromMillis now\<rparr>) ps
        \<and> prospect_writes batch = map (\<lambda>p. (tenantId p, normalizeId (lowerNonAscii E) (domain p) (product p))) ps
        \<and> db_audit d' = db_audit d @ audit_writes batch
        \<and> (\<forall>p. p \<in> set ps \<longrightarrow>
              db_prospects d' (tenantId p, normalizeId (lowerNonAscii E) (domain p) (product p)) \<noteq> None)))
   \<and> (importProspects E now d a (Some b) = (d', Inl e) \<longrightarrow>
        db_audit d' = db_audit d \<and> db_prospects d' = db_prospects d)"
proof -
  have A: "importProspects E now d a (Some b) = (d', Inr n) \<longrightarrow>
     (\<exists>c items ps d1 batch.
        or_null a = Some c \<and> items_of E b = Inr items \<and> n = length items
        \<and> map (validate_item E) items = map Inr ps
        \<and> import_loop E now c d [] 0 items = (d1, Inr (batch, n))
        \<and> db_prospects d1 = db_prospects d \<and> db_contacts d1 = db_contacts d
        \<and> db_signals d1 = db_signals d \<and> db_audit d1 = db_audit d
        \<and> d' = commit batch d1
        \<and> audit_writes batch =
             map (\<lambda>p. \<lparr>a_type = ''import'', a_tenantId = tenantId p,
                        a_prospectId = normalizeId (lowerNonAscii E) (domain p) (product p), a_by = c,
                        a_at = fromMillis now\<rparr>) ps
        \<and> prospect_writes batch = map (\<lambda>p. (tenantId p, normalizeId (lowerNonAscii E) (domain p) (product p))) ps
        \<and> db_audit d' = db_audit d @ audit_writes batch
        \<and> (\<forall>p. p \<in> set ps \<longrightarrow>
              db_prospects d' (tenantId p, normalizeId (lowerNonAscii E) (domain p) (product p)) \<noteq> None))"
  proof
    assume h: "importProspects E now d a (Some b) = (d', Inr n)"
    from importProspects_Inr_shape[OF h] obtain c items d1 batch where
      s: "or_null a = Some c" "items_of E b = Inr items"
         "import_loop E now c d [] 0 items = (d1, Inr (batch, n))" "d' = commit batch d1"
      by blast
    from import_loop_result[OF s(3)] obtain ps where
      r: "keeps_documents d d1" "n = length items" "map (validate_item E) items = map Inr ps"
         "audit_writes batch = map (\<lambda>p. audit_of now c (tenantId p) (prospect_id E p)) ps"
         "prospect_writes batch = map (\<lambda>p. (tenantId p, prospect_id E p)) ps"
      by auto
    have k: "db_prospects d1 = db_prospects d" "db_contacts d1 = db_contacts d"
        "db_signals d1 = db_signals d" "db_audit d1 = db_audit d"
      using r(1) by (simp_all add: keeps_documents_def)
    have au: "audit_writes batch =
             map (\<lambda>p. \<lparr>a_type = ''import'', a_tenantId = tenantId p,
                        a_prospectId = normalizeId (lowerNonAscii E) (domain p) (product p), a_by = c,
                        a_at = fromMillis now\<rparr>) ps"
      using r(4) by (simp add: audit_of_def prospect_id_def)
    have pw: "prospect_writes batch = map (\<lambda>p. (tenantId p, normalizeId (lowerNonAscii E) (domain p) (product p))) ps"
      using r(5) by (simp add: prospect_id_def)
    have da: "db_audit d' = db_audit d @ audit_writes batch"
      using s(4) k(4) by (simp add: commit_audit)
    have pr: "\<forall>p. p \<in> set ps \<longrightarrow>
              db_prospects d' (tenantId p, normalizeId (lowerNonAscii E) (domain p) (product p)) \<noteq> None"
    proof (intro allI impI)
      fix p assume "p \<in> set ps"
      then have "(tenantId p, normalizeId (lowerNonAscii E) (domain p) (product p)) \<in> set (prospect_writes batch)"
        unfolding pw by (simp add: image_iff) blast
      then show "db_prospects d' (tenantId p, normalizeId (lowerNonAscii E) (domain p) (product p)) \<noteq> None"
        unfolding s(4) using commit_prospect_present by blast
    qed
    show "\<exists>c items ps d1 batch.
        or_null a = Some c \<and> items_of E b = Inr items \<and> n = length items
        \<and> map (validate_item E) items = map Inr ps
        \<and> import_loop E now c d [] 0 items = (d1, Inr (batch, n))
        \<and> db_prospects d1 = db_prospects d \<and> db_contacts d1 = db_contacts d
        \<and> db_signals d1 = db_signals d \<and> db_audit d1 = db_audit d
        \<and> d' = commit batch d1
        \<and> audit_writes batch =
             map (\<lambda>p. \<lparr>a_type = ''import'', a_tenantId = tenantId p,
                        a_prospectId = normalizeId (lowerNonAscii E) (domain p) (product p), a_by = c,
                        a_at = fromMillis now\<rparr>) ps
        \<and> prospect_writes batch = map (\<lambda>p. (tenantId p, normalizeId (lowerNonAscii E) (domain p) (product p))) ps
        \<and> db_audit d' = db_audit d @ audit_writes batch
        \<and> (\<forall>p. p \<in> set ps \<longrightarrow>
              db_prospects d' (tenantId p, normalizeId (lowerNonAscii E) (domain p) (product p)) \<noteq> None)"
      using s(1,2,3,4) r(2,3) k au pw da pr by blast
  qed
  have B: "importProspects E now d a (Some b) = (d', Inl e) \<longrightarrow>
        db_audit d' = db_audit d \<and> db_prospects d' = db_prospects d"
    using importProspects_fail_keeps[of E now d a "Some b" d' e]
    by (simp add: keeps_documents_def)
  show ?thesis using A B by (rule conjI)
qed

lemma good_import_run0:
  "importProspects env0 0 store0 (Some ''u_root'') (Some (BodyObject good_record))
     = (commit (writes_of env0 0 ''u_root'' good_parsed (Some ''u_alice'') (Some ''Alice''))
          (write_cursor store0 ''acme'' [] 0), Inr 1)"
  using good_import_run[of "db_prospects store0"] by simp

theorem import_audit_per_record_witness:
  "importProspects env0 0 store0 (Some ''u_root'') (Some (BodyObject good_record))
     = (commit (writes_of env0 0 ''u_root'' good_parsed (Some ''u_alice'') (Some ''Alice''))
          (write_cursor store0 ''acme'' [] 0), Inr 1)
   \<and> (\<exists>c items ps d1 batch.
        or_null (Some ''u_root'') = Some c \<and> items_of env0 (BodyObject good_record) = Inr items
        \<and> 1 = length items
        \<and> map (validate_item env0) items = map Inr ps
        \<and> import_loop env0 0 c store0 [] 0 items = (d1, Inr (batch, 1))
        \<and> db_audit d1 = db_audit store0
        \<and> audit_writes batch =
             map (\<lambda>p. \<lparr>a_type = ''import'', a_tenantId = tenantId p,
                        a_prospectId = normalizeId (lowerNonAscii env0) (domain p) (product p), a_by = c,
                        a_at = fromMillis 0\<rparr>) ps
        \<and> db_audit (commit (writes_of env0 0 ''u_root'' good_parsed (Some ''u_alice'') (Some ''Alice''))
              (write_cursor store0 ''acme'' [] 0)) = db_audit store0 @ audit_writes batch)
   \<and> importProspects env0 0 store0 (Some ''u_root'') (Some (BodyArray [good_record, bad_record]))
       = (write_cursor store0 ''acme'' [] 0, Inl (ValidationError [''product'']))
   \<and> db_audit (write_cursor store0 ''acme'' [] 0) = db_audit store0"
proof -
  note t1 = import_audit_per_record[where E = env0 and now = 0 and d = store0
      and a = "Some ''u_root''" and b = "BodyObject good_record" and n = 1
      and d' = "commit (writes_of env0 0 ''u_root'' good_parsed (Some ''u_alice'') (Some ''Alice''))
          (write_cursor store0 ''acme'' [] 0)"]
  note t2 = import_audit_per_record[where E = env0 and now = 0 and d = store0
      and a = "Some ''u_root''" and b = "BodyArray [good_record, bad_record]"
      and d' = "write_cursor store0 ''acme'' [] 0" and e = "ValidationError [''product'']"]
  have 1: "\<exists>c items ps d1 batch.
        or_null (Some ''u_root'') = Some c \<and> items_of env0 (BodyObject good_record) = Inr items
        \<and> 1 = length items
        \<and> map (validate_item env0) items = map Inr ps
        \<and> import_loop env0 0 c store0 [] 0 items = (d1, Inr (batch, 1))
        \<and> db_audit d1 = db_audit store0
        \<and> audit_writes batch =
             map (\<lambda>p. \<lparr>a_type = ''import'', a_tenantId = tenantId p,
                        a_prospectId = normalizeId (lowerNonAscii env0) (domain p) (product p), a_by = c,
                        a_at = fromMillis 0\<rparr>) ps
        \<and> db_audit (commit (writes_of env0 0 ''u_root'' good_parsed (Some ''u_alice'') (Some ''Alice''))
              (write_cursor store0 ''acme'' [] 0)) = db_audit store0 @ audit_writes batch"
    using t1 good_import_run0 by blast
  have 2: "db_audit (write_cursor store0 ''acme'' [] 0) = db_audit store0"
    using t2 failing_import_run by blast
  show ?thesis using 1 2 good_import_run0 failing_import_run by (intro conjI)
qed








section \<open>Properties of the scheduled scoring\<close>

lemma z_score_range:
  "z_default 0 (z_int_range 0 100) v = Some s \<Longrightarrow> 0 \<le> s \<and> s \<le> 100"
  by (auto simp: z_default_def z_int_range_def split: jv.splits if_splits)

lemma validate_item_score: "validate_item E r = Inr p \<Longrightarrow> 0 \<le> score p \<and> score p \<le> 100"
  using validate_item_fields(1)[of E r p] z_score_range by blast

lemma parse_score: "ProspectSchema_parse L r = Inr p \<Longrightarrow> 0 \<le> score p \<and> score p \<le> 100"
  using parse_fields(1)[of L r p] z_score_range by blast

lemma score_rejected:
  assumes "fld r ''score'' = JNum q" and "q < 0 \<or> 100 < q \<or> of_int \<lfloor>q\<rfloor> \<noteq> q"
  shows "ProspectSchema_parse L r = Inl (ValidationError (ProspectSchema_issues L r))
         \<and> ''score'' \<in> set (ProspectSchema_issues L r)"
proof -
  have n: "z_default 0 (z_int_range 0 100) (fld r ''score'') = None"
    using assms by (auto simp: z_default_def z_int_range_def)
  have "ProspectSchema_fields L r = None"
  proof (rule ccontr)
    assume "ProspectSchema_fields L r \<noteq> None"
    then obtain p where "ProspectSchema_fields L r = Some p" by auto
    then have "ProspectSchema_parse L r = Inr p" by (simp add: ProspectSchema_parse_def)
    from parse_fields(1)[OF this] n show False by simp
  qed
  moreover have "''score'' \<in> set (ProspectSchema_issues L r)"
    using n by (simp add: ProspectSchema_issues_def)
  ultimately show ?thesis by (simp add: ProspectSchema_parse_def)
qed

lemma decayed_score_cases:
  "decayed_score E now f = p_score f \<or> decayed_score E now f = max 0 (p_score f - 2)"
  by (simp add: decayed_score_def Let_def split: option.splits)

lemma decayed_score_range:
  assumes "0 \<le> p_score f" and "p_score f \<le> 100"
  shows "0 \<le> decayed_score E now f \<and> decayed_score E now f \<le> p_score f"
  using decayed_score_cases[of E now f] assms by auto

lemma decayed_score_unset:
  "p_lastContactedAt f = None \<Longrightarrow> decayed_score E now f = p_score f"
  by (simp add: decayed_score_def)

lemma decayed_score_set:
  "p_lastContactedAt f = Some ts \<Longrightarrow> seconds ts \<noteq> 0 \<Longrightarrow>
     decayed_score E now f =
       (if (now - seconds ts * 1000) div ms_per_day \<ge> 3 then max 0 (p_score f - 2) else p_score f)"
  by (simp add: decayed_score_def last_of_def)

text \<open>
  Claim C4, as the code has it. For a prospect whose \<open>lastContactedAt\<close> is unset the
  score stays; for one whose timestamp has a non-zero seconds part the days since contact
  are counted from the whole seconds of the timestamp, and from 3 days on the score
  drops by 2, not below 0. The stage is then set from the new score alone (from 80
  \<open>P1\<close>, from 60 \<open>nurture\<close>, else \<open>research\<close>), whatever it was, and score, stage
  and \<open>updatedAt\<close> are written to every prospect of the store.
\<close>

theorem recalc_decay_and_stage:
  "(p_lastContactedAt (doc_fields x) = None \<longrightarrow>
      p_score (doc_fields (recalc_doc E now x)) = p_score (doc_fields x))
   \<and> (\<forall>ts. p_lastContactedAt (doc_fields x) = Some ts \<and> seconds ts \<noteq> 0 \<longrightarrow>
        p_score (doc_fields (recalc_doc E now x)) =
          (if 3 \<le> (now - seconds ts * 1000) div ms_per_day
           then max 0 (p_score (doc_fields x) - 2) else p_score (doc_fields x)))
   \<and> p_stage (doc_fields (recalc_doc E now x)) =
        (if 80 \<le> p_score (doc_fields (recalc_doc E now x)) then ''P1''
         else if 60 \<le> p_score (doc_fields (recalc_doc E now x)) then ''nurture''
         else ''research'')
   \<and> recalc_doc E now x =
        x\<lparr>doc_fields := (doc_fields x)
             \<lparr>p_score := p_score (doc_fields (recalc_doc E now x)),
              p_stage := p_stage (doc_fields (recalc_doc E now x)),
              p_updatedAt := fromMillis now\<rparr>\<rparr>
   \<and> db_prospects (recalculateScores E now d) k = map_option (recalc_doc E now) (db_prospects d k)"
proof -
  have s: "p_score (doc_fields (recalc_doc E now x)) = decayed_score E now (doc_fields x)"
    by (simp add: recalc_doc_def Let_def)
  have 1: "p_lastContactedAt (doc_fields x) = None \<longrightarrow>
      p_score (doc_fields (recalc_doc E now x)) = p_score (doc_fields x)"
    unfolding s using decayed_score_unset by blast
  have 2: "\<forall>ts. p_lastContactedAt (doc_fields x) = Some ts \<and> seconds ts \<noteq> 0 \<longrightarrow>
        p_score (doc_fields (recalc_doc E now x)) =
          (if 3 \<le> (now - seconds ts * 1000) div ms_per_day
           then max 0 (p_score (doc_fields x) - 2) else p_score (doc_fields x))"
    unfolding s using decayed_score_set by blast
  have 3: "p_stage (doc_fields (recalc_doc E now x)) =
        (if 80 \<le> p_score (doc_fields (recalc_doc E now x)) then ''P1''
         else if 60 \<le> p_score (doc_fields (recalc_doc E now x)) then ''nurture''
         else ''research'')"
    by (simp add: recalc_doc_def Let_def stage_of_score_def)
  have 4: "recalc_doc E now x =
        x\<lparr>doc_fields := (doc_fields x)
             \<lparr>p_score := p_score (doc_fields (recalc_doc E now x)),
              p_stage := p_stage (doc_fields (recalc_doc E now x)),
              p_updatedAt := fromMillis now\<rparr>\<rparr>"
    by (simp add: recalc_doc_def Let_def)
  have 5: "db_prospects (recalculateScores E now d) k = map_option (recalc_doc E now) (db_prospects d k)"
    by (simp add: recalculateScores_def)
  show ?thesis using 1 2 3 4 5 by (intro conjI)
qed

theorem recalc_decay_and_stage_witness:
  "p_lastContactedAt (doc_fields (contacted_doc 82 (Some \<lparr>seconds = 518400, nanoseconds = 0\<rparr>)))
      = Some \<lparr>seconds = 518400, nanoseconds = 0\<rparr>
   \<and> seconds \<lparr>seconds = 518400, nanoseconds = 0\<rparr> \<noteq> 0
   \<and> p_score (doc_fields (recalc_doc env0 950400000
        (contacted_doc 82 (Some \<lparr>seconds = 518400, nanoseconds = 0\<rparr>)))) = 80
   \<and> p_stage (doc_fields (recalc_doc env0 950400000
        (contacted_doc 82 (Some \<lparr>seconds = 518400, nanoseconds = 0\<rparr>)))) = ''P1''
   \<and> p_score (doc_fields (recalc_doc env0 950400000
        (contacted_doc 61 (Some \<lparr>seconds = 864000, nanoseconds = 0\<rparr>)))) = 61
   \<and> p_stage (doc_fields (recalc_doc env0 950400000
        (contacted_doc 61 (Some \<lparr>seconds = 864000, nanoseconds = 0\<rparr>)))) = ''nurture''
   \<and> p_score (doc_fields (recalc_doc env0 950400000
        (contacted_doc 1 (Some \<lparr>seconds = 86400, nanoseconds = 0\<rparr>)))) = 0
   \<and> p_stage (doc_fields (recalc_doc env0 950400000
        (contacted_doc 1 (Some \<lparr>seconds = 86400, nanoseconds = 0\<rparr>)))) = ''research''
   \<and> p_lastContactedAt (doc_fields (contacted_doc 82 None)) = None
   \<and> p_score (doc_fields (recalc_doc env0 950400000 (contacted_doc 82 None))) = 82
   \<and> p_stage (doc_fields (contacted_doc 82 None)) = ''hold''
   \<and> p_stage (doc_fields (recalc_doc env0 950400000 (contacted_doc 82 None))) = ''P1''"
proof -
  have f: "p_lastContactedAt (doc_fields (contacted_doc s t)) = t"
      "p_score (doc_fields (contacted_doc s t)) = s"
      "p_stage (doc_fields (contacted_doc s t)) = ''hold''" for s t
    by (simp_all add: contacted_doc_def old_doc_def)
  note a = recalc_decay_and_stage[where x = "contacted_doc 82 (Some \<lparr>seconds = 518400, nanoseconds = 0\<rparr>)"
      and E = env0 and now = 950400000]
  note b = recalc_decay_and_stage[where x = "contacted_doc 61 (Some \<lparr>seconds = 864000, nanoseconds = 0\<rparr>)"
      and E = env0 and now = 950400000]
  note c = recalc_decay_and_stage[where x = "contacted_doc 1 (Some \<lparr>seconds = 86400, nanoseconds = 0\<rparr>)"
      and E = env0 and now = 950400000]
  note n = recalc_decay_and_stage[where x = "contacted_doc 82 None" and E = env0 and now = 950400000]
  have a1: "p_score (doc_fields (recalc_doc env0 950400000
        (contacted_doc 82 (Some \<lparr>seconds = 518400, nanoseconds = 0\<rparr>)))) = 80"
    using a by (simp add: f ms_per_day_def)
  have b1: "p_score (doc_fields (recalc_doc env0 950400000
        (contacted_doc 61 (Some \<lparr>seconds = 864000, nanoseconds = 0\<rparr>)))) = 61"
    using b by (simp add: f ms_per_day_def)
  have c1: "p_score (doc_fields (recalc_doc env0 950400000
        (contacted_doc 1 (Some \<lparr>seconds = 86400, nanoseconds = 0\<rparr>)))) = 0"
    using c by (simp add: f ms_per_day_def)
  have n1: "p_score (doc_fields (recalc_doc env0 950400000 (contacted_doc 82 None))) = 82"
    using n by (simp add: f)
  have a2: "p_stage (doc_fields (recalc_doc env0 950400000
        (contacted_doc 82 (Some \<lparr>seconds = 518400, nanoseconds = 0\<rparr>)))) = ''P1''"
    using a a1 by simp
  have b2: "p_stage (doc_fields (recalc_doc env0 950400000
        (contacted_doc 61 (Some \<lparr>seconds = 864000, nanoseconds = 0\<rparr>)))) = ''nurture''"
    using b b1 by simp
  have c2: "p_stage (doc_fields (recalc_doc env0 950400000
        (contacted_doc 1 (Some \<lparr>seconds = 86400, nanoseconds = 0\<rparr>)))) = ''research''"
    using c c1 by simp
  have n2: "p_stage (doc_fields (recalc_doc env0 950400000 (contacted_doc 82 None))) = ''P1''"
    using n n1 by simp
  show ?thesis using a1 a2 b1 b2 c1 c2 n1 n2 by (simp add: f)
qed

theorem recalc_subsecond_counterexample:
  "p_lastContactedAt (doc_fields old_doc) = Some \<lparr>seconds = 86400, nanoseconds = 500000000\<rparr>
   \<and> toMillis \<lparr>seconds = 86400, nanoseconds = 500000000\<rparr> = 86400500
   \<and> (345600200 - toMillis \<lparr>seconds = 86400, nanoseconds = 500000000\<rparr>) div ms_per_day = 2
   \<and> p_score (doc_fields old_doc) = 82
   \<and> p_score (doc_fields (recalc_doc env0 345600200 old_doc)) = 80"
  by (simp add: old_doc_def toMillis_def ms_per_day_def recalc_doc_def decayed_score_def
        last_of_def Let_def)

lemma writes_of_payload:
  "SetProspect t i f \<in> set (writes_of E now c p ou on) \<Longrightarrow> f = payload_of E now p ou on"
  by (auto simp: writes_of_def Let_def)

lemma import_loop_scores:
  "import_loop E now c d b n items = (d', Inr (batch, cnt)) \<Longrightarrow>
   \<forall>t i f. SetProspect t i f \<in> set b \<longrightarrow> 0 \<le> p_score f \<and> p_score f \<le> 100 \<Longrightarrow>
   \<forall>t i f. SetProspect t i f \<in> set batch \<longrightarrow> 0 \<le> p_score f \<and> p_score f \<le> 100"
proof (induction items arbitrary: d b n)
  case Nil
  then show ?case by simp
next
  case (Cons r items)
  obtain d1 res1 where pi: "process_item E now c d r = (d1, res1)"
    by (cases "process_item E now c d r")
  show ?case
  proof (cases res1)
    case (Inl e)
    then show ?thesis using Cons.prems(1) pi by simp
  next
    case (Inr ws)
    then obtain p ou on where p: "validate_item E r = Inr p" "ws = writes_of E now c p ou on"
      using process_item_Inr pi by blast
    have rest: "import_loop E now c d1 (b @ ws) (n + 1) items = (d', Inr (batch, cnt))"
      using Cons.prems(1) pi Inr by simp
    have ok: "\<forall>t i f. SetProspect t i f \<in> set (b @ ws) \<longrightarrow> 0 \<le> p_score f \<and> p_score f \<le> 100"
    proof (intro allI impI)
      fix t i f
      assume m: "SetProspect t i f \<in> set (b @ ws)"
      show "0 \<le> p_score f \<and> p_score f \<le> 100"
      proof (cases "SetProspect t i f \<in> set b")
        case True
        then show ?thesis using Cons.prems(2) by blast
      next
        case False
        then have "SetProspect t i f \<in> set (writes_of E now c p ou on)" using m p(2) by simp
        then have "f = payload_of E now p ou on" by (rule writes_of_payload)
        then show ?thesis using validate_item_score[OF p(1)] by (simp add: payload_of_def)
      qed
    qed
    show ?thesis using Cons.IH[OF rest ok] .
  qed
qed

lemma apply_write_scores:
  assumes "\<forall>k x. db_prospects d k = Some x \<longrightarrow>
              0 \<le> p_score (doc_fields x) \<and> p_score (doc_fields x) \<le> 100"
    and "\<forall>t i f. w = SetProspect t i f \<longrightarrow> 0 \<le> p_score f \<and> p_score f \<le> 100"
  shows "\<forall>k x. db_prospects (apply_write d w) k = Some x \<longrightarrow>
              0 \<le> p_score (doc_fields x) \<and> p_score (doc_fields x) \<le> 100"
proof (cases w)
  case (SetProspect t i f)
  have f: "0 \<le> p_score f \<and> p_score f \<le> 100" using assms(2) SetProspect by simp
  show ?thesis
  proof (intro allI impI)
    fix k x
    assume h: "db_prospects (apply_write d w) k = Some x"
    show "0 \<le> p_score (doc_fields x) \<and> p_score (doc_fields x) \<le> 100"
    proof (cases "k = (t, i)")
      case True
      then have "x = set_merge (db_prospects d (t, i)) f" using h SetProspect by simp
      then show ?thesis using f by (simp add: set_merge_def)
    next
      case False
      then have "db_prospects d k = Some x" using h SetProspect by simp
      then show ?thesis using assms(1) by blast
    qed
  qed
next
  case (AddContact t i c ts)
  then show ?thesis using assms(1) by simp
next
  case (AddSignal t i sd ts)
  then show ?thesis using assms(1) by simp
next
  case (AddAudit a)
  then show ?thesis using assms(1) by simp
qed

lemma commit_scores:
  "\<forall>k x. db_prospects d k = Some x \<longrightarrow>
       0 \<le> p_score (doc_fields x) \<and> p_score (doc_fields x) \<le> 100 \<Longrightarrow>
   \<forall>t i f. SetProspect t i f \<in> set batch \<longrightarrow> 0 \<le> p_score f \<and> p_score f \<le> 100 \<Longrightarrow>
   \<forall>k x. db_prospects (commit batch d) k = Some x \<longrightarrow>
       0 \<le> p_score (doc_fields x) \<and> p_score (doc_fields x) \<le> 100"
proof (induction batch arbitrary: d)
  case Nil
  then show ?case by (simp add: commit_def)
next
  case (Cons w ws)
  have w: "\<forall>t i f. w = SetProspect t i f \<longrightarrow> 0 \<le> p_score f \<and> p_score f \<le> 100"
    using Cons.prems(2) by simp
  have ws: "\<forall>t i f. SetProspect t i f \<in> set ws \<longrightarrow> 0 \<le> p_score f \<and> p_score f \<le> 100"
    using Cons.prems(2) by simp
  show ?case
    unfolding commit_Cons
    using Cons.IH[OF apply_write_scores[OF Cons.prems(1) w] ws] .
qed

lemma importProspects_scores:
  assumes inv: "\<forall>k x. db_prospects d k = Some x \<longrightarrow>
      0 \<le> p_score (doc_fields x) \<and> p_score (doc_fields x) \<le> 100"
  shows "\<forall>k x. db_prospects (fst (importProspects E now d a b)) k = Some x \<longrightarrow>
      0 \<le> p_score (doc_fields x) \<and> p_score (doc_fields x) \<le> 100"
proof -
  obtain d' res where r: "importProspects E now d a b = (d', res)"
    by (cases "importProspects E now d a b")
  show ?thesis
  proof (cases res)
    case (Inl e)
    then have "keeps_documents d d'" using importProspects_fail_keeps r by blast
    then have "db_prospects d' = db_prospects d" by (simp add: keeps_documents_def)
    then show ?thesis using inv r by simp
  next
    case (Inr n)
    have "b \<noteq> None"
    proof
      assume "b = None"
      then have "\<exists>e. snd (importProspects E now d a b) = Inl e"
        by (simp add: importProspects_def split: option.splits)
      then show False using r Inr by simp
    qed
    then obtain bd where bd: "b = Some bd" by auto
    have h: "importProspects E now d a (Some bd) = (d', Inr n)" using r Inr bd by simp
    obtain c items d1 batch where
      s: "import_loop E now c d [] 0 items = (d1, Inr (batch, n))" "d' = commit batch d1"
      by (rule importProspects_Inr_shape[OF h])
    have k: "db_prospects d1 = db_prospects d"
      using import_loop_result[OF s(1)] by (simp add: keeps_documents_def)
    have b_ok: "\<forall>t i f. SetProspect t i f \<in> set batch \<longrightarrow> 0 \<le> p_score f \<and> p_score f \<le> 100"
      using import_loop_scores[OF s(1)] by simp
    have d1_ok: "\<forall>k x. db_prospects d1 k = Some x \<longrightarrow>
        0 \<le> p_score (doc_fields x) \<and> p_score (doc_fields x) \<le> 100"
      using k inv by simp
    show ?thesis
      using commit_scores[OF d1_ok b_ok] r s(2) by simp
  qed
qed

lemma recalculateScores_scores:
  assumes inv: "\<forall>k x. db_prospects d k = Some x \<longrightarrow>
      0 \<le> p_score (doc_fields x) \<and> p_score (doc_fields x) \<le> 100"
  shows "\<forall>k x. db_prospects (recalculateScores E now d) k = Some x \<longrightarrow>
      0 \<le> p_score (doc_fields x) \<and> p_score (doc_fields x) \<le> 100"
proof (intro allI impI)
  fix k x
  assume after: "db_prospects (recalculateScores E now d) k = Some x"
  obtain y where y: "db_prospects d k = Some y" "x = recalc_doc E now y"
    using after by (auto simp: recalculateScores_def)
  have "p_score (doc_fields x) = decayed_score E now (doc_fields y)"
    using y(2) by (simp add: recalc_doc_def Let_def)
  moreover have "0 \<le> p_score (doc_fields y) \<and> p_score (doc_fields y) \<le> 100"
    using inv y(1) by blast
  ultimately show "0 \<le> p_score (doc_fields x) \<and> p_score (doc_fields x) \<le> 100"
    using decayed_score_range[of "doc_fields y" E now] by simp
qed

text \<open>
  Claim C8. A record the schema accepts has an integer score from 0 to 100, and a score
  below 0, above 100 or not an integer is rejected with a validation error that names the
  field. The recomputation leaves a score of that range in the range: it keeps it or
  lowers it by 2, not below 0. Hence, in a store whose prospects all have a score from 0
  to 100, they still all have one after an import call and after a scheduled
  recomputation.
\<close>

theorem score_stays_in_range:
  "(ProspectSchema_parse (lowerNonAscii E) r = Inr p \<longrightarrow> 0 \<le> score p \<and> score p \<le> 100)
   \<and> (fld r ''score'' = JNum q \<and> (q < 0 \<or> 100 < q \<or> of_int \<lfloor>q\<rfloor> \<noteq> q) \<longrightarrow>
        (\<exists>es. ProspectSchema_parse (lowerNonAscii E) r = Inl (ValidationError es) \<and> ''score'' \<in> set es))
   \<and> (0 \<le> p_score f \<and> p_score f \<le> 100 \<longrightarrow>
        0 \<le> decayed_score E now f \<and> decayed_score E now f \<le> p_score f
        \<and> (decayed_score E now f = p_score f \<or> decayed_score E now f = max 0 (p_score f - 2)))
   \<and> ((\<forall>k x. db_prospects d k = Some x \<longrightarrow>
            0 \<le> p_score (doc_fields x) \<and> p_score (doc_fields x) \<le> 100) \<longrightarrow>
        (\<forall>k x. db_prospects (fst (importProspects E now d a b)) k = Some x \<longrightarrow>
            0 \<le> p_score (doc_fields x) \<and> p_score (doc_fields x) \<le> 100)
        \<and> (\<forall>k x. db_prospects (recalculateScores E now d) k = Some x \<longrightarrow>
            0 \<le> p_score (doc_fields x) \<and> p_score (doc_fields x) \<le> 100))"
proof -
  have 1: "ProspectSchema_parse (lowerNonAscii E) r = Inr p \<longrightarrow> 0 \<le> score p \<and> score p \<le> 100"
    using parse_score by blast
  have 2: "fld r ''score'' = JNum q \<and> (q < 0 \<or> 100 < q \<or> of_int \<lfloor>q\<rfloor> \<noteq> q) \<longrightarrow>
        (\<exists>es. ProspectSchema_parse (lowerNonAscii E) r = Inl (ValidationError es) \<and> ''score'' \<in> set es)"
    using score_rejected[of r q] by blast
  have 3: "0 \<le> p_score f \<and> p_score f \<le> 100 \<longrightarrow>
        0 \<le> decayed_score E now f \<and> decayed_score E now f \<le> p_score f
        \<and> (decayed_score E now f = p_score f \<or> decayed_score E now f = max 0 (p_score f - 2))"
    using decayed_score_range[of f E now] decayed_score_cases[of E now f] by blast
  have 4: "(\<forall>k x. db_prospects d k = Some x \<longrightarrow>
            0 \<le> p_score (doc_fields x) \<and> p_score (doc_fields x) \<le> 100) \<longrightarrow>
        (\<forall>k x. db_prospects (fst (importProspects E now d a b)) k = Some x \<longrightarrow>
            0 \<le> p_score (doc_fields x) \<and> p_score (doc_fields x) \<le> 100)
        \<and> (\<forall>k x. db_prospects (recalculateScores E now d) k = Some x \<longrightarrow>
            0 \<le> p_score (doc_fields x) \<and> p_score (doc_fields x) \<le> 100)"
  proof (intro impI)
    assume inv: "\<forall>k x. db_prospects d k = Some x \<longrightarrow>
            0 \<le> p_score (doc_fields x) \<and> p_score (doc_fields x) \<le> 100"
    have a: "\<forall>k x. db_prospects (fst (importProspects E now d a b)) k = Some x \<longrightarrow>
            0 \<le> p_score (doc_fields x) \<and> p_score (doc_fields x) \<le> 100"
      using inv by (rule importProspects_scores)
    have b: "\<forall>k x. db_prospects (recalculateScores E now d) k = Some x \<longrightarrow>
            0 \<le> p_score (doc_fields x) \<and> p_score (doc_fields x) \<le> 100"
      using inv by (rule recalculateScores_scores)
    show "(\<forall>k x. db_prospects (fst (importProspects E now d a b)) k = Some x \<longrightarrow>
            0 \<le> p_score (doc_fields x) \<and> p_score (doc_fields x) \<le> 100)
        \<and> (\<forall>k x. db_prospects (recalculateScores E now d) k = Some x \<longrightarrow>
            0 \<le> p_score (doc_fields x) \<and> p_score (doc_fields x) \<le> 100)"
      using a b by (rule conjI)
  qed
  show ?thesis using 1 2 3 4 by (intro conjI)
qed

lemma good_parse:
  "ProspectSchema_parse (lowerNonAscii (E :: env)) ((''product'', JStr ''verity'') # good_record) = Inr good_parsed"
  using good_valid[of E]
  by (simp add: validate_item_def lower_product_def fld_def good_record_def lower_examples)

lemma store2_docs:
  "db_prospects store2 = [(''acme'', ''example.edu_verity'') \<mapsto> old_doc]"
  by (simp add: store2_def)

theorem score_stays_in_range_witness:
  "ProspectSchema_parse (lowerNonAscii env0) ((''product'', JStr ''verity'') # good_record) = Inr good_parsed
   \<and> 0 \<le> score good_parsed \<and> score good_parsed \<le> 100
   \<and> fld [(''score'', JNum 101)] ''score'' = JNum 101 \<and> (100 :: rat) < 101
   \<and> (\<exists>es. ProspectSchema_parse (lowerNonAscii env0) [(''score'', JNum 101)] = Inl (ValidationError es)
          \<and> ''score'' \<in> set es)
   \<and> 0 \<le> p_score (doc_fields old_doc) \<and> p_score (doc_fields old_doc) \<le> 100
   \<and> 0 \<le> decayed_score env0 950400000 (doc_fields old_doc)
   \<and> decayed_score env0 950400000 (doc_fields old_doc) \<le> p_score (doc_fields old_doc)
   \<and> db_prospects store2 = [(''acme'', ''example.edu_verity'') \<mapsto> old_doc]
   \<and> (\<exists>x. db_prospects (recalculateScores env0 950400000 store2) (''acme'', ''example.edu_verity'')
             = Some x
          \<and> 0 \<le> p_score (doc_fields x) \<and> p_score (doc_fields x) \<le> 100)"
proof -
  note t = score_stays_in_range[where r = "(''product'', JStr ''verity'') # good_record"
      and p = good_parsed and f = "doc_fields old_doc" and E = env0 and now = 950400000
      and d = store2]
  note t2 = score_stays_in_range[where r = "[(''score'', JNum 101)]" and q = 101]
  have q: "fld [(''score'', JNum 101)] ''score'' = JNum 101" by (simp add: fld_def)
  have o: "0 \<le> p_score (doc_fields old_doc) \<and> p_score (doc_fields old_doc) \<le> 100"
    by (simp add: old_doc_def)
  have inv: "\<forall>k x. db_prospects store2 k = Some x \<longrightarrow>
            0 \<le> p_score (doc_fields x) \<and> p_score (doc_fields x) \<le> 100"
    using o by (simp add: store2_docs)
  have 1: "0 \<le> score good_parsed \<and> score good_parsed \<le> 100" using t good_parse by blast
  have 2: "\<exists>es. ProspectSchema_parse (lowerNonAscii env0) [(''score'', JNum 101)] = Inl (ValidationError es)
          \<and> ''score'' \<in> set es"
    using t2 q by simp
  have 3: "0 \<le> decayed_score env0 950400000 (doc_fields old_doc)
      \<and> decayed_score env0 950400000 (doc_fields old_doc) \<le> p_score (doc_fields old_doc)"
    using t o by blast
  have ex: "db_prospects (recalculateScores env0 950400000 store2) (''acme'', ''example.edu_verity'')
      = Some (recalc_doc env0 950400000 old_doc)"
    by (simp add: recalculateScores_def store2_docs)
  have "0 \<le> p_score (doc_fields (recalc_doc env0 950400000 old_doc))
      \<and> p_score (doc_fields (recalc_doc env0 950400000 old_doc)) \<le> 100"
    using t inv ex by blast
  then have 4: "\<exists>x. db_prospects (recalculateScores env0 950400000 store2) (''acme'', ''example.edu_verity'')
             = Some x
          \<and> 0 \<le> p_score (doc_fields x) \<and> p_score (doc_fields x) \<le> 100"
    using ex by blast
  show ?thesis using good_parse 1 q 2 o 3 store2_docs 4 by simp
qed

end
